theory Spec2Isabelle
  imports Main
begin

section \<open>Python values and string primitives\<close>

text \<open>
  A Python \<open>str\<close> is modelled as a \<^typ>\<open>string\<close> whose characters are the code points
  below 256. The character classes below are the ones CPython uses on that range:
  \<open>str.strip()\<close> and \<open>str.isspace()\<close> treat 9-13, 28-32, 133 and 160 as whitespace,
  \<open>int()\<close> skips 9-13, 32, 133 and 160 only, \<open>str.isdigit()\<close> accepts the ten decimal
  digits and the superscripts 178, 179 and 185, and \<open>int()\<close> accepts the decimal digits only.
  Python's integers are unbounded (\<^typ>\<open>int\<close>); the interpreter's configurable limit on
  the length of int/str conversions is not modelled.
\<close>

datatype exc = AttributeError | TypeError | KeyError | IndexError | ValueError
  | JSONDecodeError | TransportError

definition is_space :: "char \<Rightarrow> bool" where
  "is_space c = (of_char c \<in> {9, 10, 11, 12, 13, 28, 29, 30, 31, 32, 133, 160 :: nat})"

definition is_int_space :: "char \<Rightarrow> bool" where
  "is_int_space c = (of_char c \<in> {9, 10, 11, 12, 13, 32, 133, 160 :: nat})"

definition is_dec :: "char \<Rightarrow> bool" where
  "is_dec c = (48 \<le> (of_char c :: nat) \<and> (of_char c :: nat) \<le> 57)"

definition is_digit_char :: "char \<Rightarrow> bool" where
  "is_digit_char c = (is_dec c \<or> of_char c \<in> {178, 179, 185 :: nat})"

definition strip_by :: "(char \<Rightarrow> bool) \<Rightarrow> string \<Rightarrow> string" where
  "strip_by p s = rev (dropWhile p (rev (dropWhile p s)))"

definition strip :: "string \<Rightarrow> string" where
  "strip s = strip_by is_space s"

definition isdigit :: "string \<Rightarrow> bool" where
  "isdigit s = (s \<noteq> [] \<and> list_all is_digit_char s)"

definition startswith :: "string \<Rightarrow> char \<Rightarrow> bool" where
  "startswith s c = (case s of [] \<Rightarrow> False | x # _ \<Rightarrow> x = c)"

definition endswith :: "string \<Rightarrow> char \<Rightarrow> bool" where
  "endswith s c = (s \<noteq> [] \<and> last s = c)"

definition split1 :: "char \<Rightarrow> string \<Rightarrow> string list" where
  \<comment> \<open>\<open>s.split(sep, 1)\<close> for a one-character separator\<close>
  "split1 sep s =
     (if sep \<in> set s then [takeWhile (\<lambda>c. c \<noteq> sep) s, tl (dropWhile (\<lambda>c. c \<noteq> sep) s)]
      else [s])"

definition remove_char :: "char \<Rightarrow> string \<Rightarrow> string" where
  \<comment> \<open>\<open>s.replace(c, "")\<close>\<close>
  "remove_char c s = filter (\<lambda>x. x \<noteq> c) s"

subsection \<open>\<open>int(s)\<close> and \<open>str(n)\<close>\<close>

fun int_digits :: "bool \<Rightarrow> nat \<Rightarrow> string \<Rightarrow> nat option" where
  "int_digits prev acc [] = (if prev then Some acc else None)"
| "int_digits prev acc (c # cs) =
     (if is_dec c then int_digits True (10 * acc + (of_char c - 48)) cs
      else if c = CHR ''_'' \<and> prev then int_digits False acc cs
      else None)"

definition dec_value :: "nat \<Rightarrow> string \<Rightarrow> nat" where
  \<comment> \<open>the number a string of decimal digits denotes, continuing from \<open>acc\<close>\<close>
  "dec_value acc ds = foldl (\<lambda>a c. 10 * a + (of_char c - 48)) acc ds"

definition py_int :: "string \<Rightarrow> int option" where
  \<comment> \<open>\<open>int(s)\<close>; \<open>None\<close> stands for the \<open>ValueError\<close>\<close>
  "py_int s =
     (case strip_by is_int_space s of
        [] \<Rightarrow> None
      | c # cs \<Rightarrow>
          if c = CHR ''-'' then map_option (\<lambda>n. - int n) (int_digits False 0 cs)
          else if c = CHR ''+'' then map_option int (int_digits False 0 cs)
          else map_option int (int_digits False 0 (c # cs)))"

definition digit_char :: "nat \<Rightarrow> char" where
  "digit_char d = char_of (48 + d)"

function str_nat :: "nat \<Rightarrow> string" where
  "str_nat n = (if n < 10 then [digit_char n] else str_nat (n div 10) @ [digit_char (n mod 10)])"
  by pat_completeness auto
termination
  by (relation "measure id") auto

definition str_int :: "int \<Rightarrow> string" where
  "str_int i = (if i < 0 then CHR ''-'' # str_nat (nat (- i)) else str_nat (nat i))"

subsection \<open>Values and \<open>str(v)\<close>\<close>

text \<open>
  The JSON-like values the crawler handles. A float is carried by its \<open>repr\<close> (the text
  \<open>str()\<close> gives for it, such as \<open>0.0\<close>); a dict is an association list in insertion order
  with string keys.
\<close>

datatype pyval =
    PNone
  | PBool bool
  | PInt int
  | PFloat string
  | PStr string
  | PList "pyval list"
  | PDict "(string \<times> pyval) list"

definition hex_char :: "nat \<Rightarrow> char" where
  "hex_char d = (if d < 10 then char_of (48 + d) else char_of (87 + d))"

definition printable :: "char \<Rightarrow> bool" where
  "printable c = (let n = (of_char c :: nat) in 32 \<le> n \<and> n \<noteq> 173 \<and> \<not> (127 \<le> n \<and> n \<le> 160))"

definition repr_char :: "char \<Rightarrow> char \<Rightarrow> string" where
  "repr_char q c =
     (if c = q \<or> c = CHR 0x5C then [CHR 0x5C, c]
      else if c = CHR 0x09 then [CHR 0x5C, CHR ''t'']
      else if c = CHR 0x0A then [CHR 0x5C, CHR ''n'']
      else if c = CHR 0x0D then [CHR 0x5C, CHR ''r'']
      else if printable c then [c]
      else [CHR 0x5C, CHR ''x'', hex_char (of_char c div 16), hex_char (of_char c mod 16)])"

definition repr_str :: "string \<Rightarrow> string" where
  "repr_str s =
     (let q = (if CHR 0x27 \<in> set s \<and> CHR 0x22 \<notin> set s then CHR 0x22 else CHR 0x27)
      in q # concat (map (repr_char q) s) @ [q])"

fun join :: "string \<Rightarrow> string list \<Rightarrow> string" where
  "join sep [] = []"
| "join sep [x] = x"
| "join sep (x # y # ys) = x @ sep @ join sep (y # ys)"

primrec py_repr :: "pyval \<Rightarrow> string" where
  "py_repr PNone = ''None''"
| "py_repr (PBool b) = (if b then ''True'' else ''False'')"
| "py_repr (PInt i) = str_int i"
| "py_repr (PFloat r) = r"
| "py_repr (PStr s) = repr_str s"
| "py_repr (PList xs) = ''['' @ join '', '' (map py_repr xs) @ '']''"
| "py_repr (PDict kvs) =
     ''{'' @ join '', '' (map (\<lambda>kv. repr_str (fst kv) @ '': '' @ snd kv) (map (map_prod id py_repr) kvs)) @ ''}''"

definition py_str :: "pyval \<Rightarrow> string" where
  "py_str v = (case v of PStr s \<Rightarrow> s | _ \<Rightarrow> py_repr v)"

section \<open>The rank normalizer of the reconciliation engine\<close>

type_synonym rank_triple = "string option \<times> int option \<times> int option"

definition normalize_str :: "string \<Rightarrow> exc + rank_triple" where
  \<comment> \<open>the body of \<open>_normalize_qs_ranking\<close> from the first \<open>startswith\<close> test on\<close>
  "normalize_str s =
     (if startswith s CHR ''='' then
        (case py_int (strip (tl s)) of
           Some n \<Rightarrow> Inr (Some (CHR ''='' # str_int n), Some n, Some n)
         | None \<Rightarrow> Inr (Some s, None, None))
      else if endswith s CHR ''+'' then
        (case py_int (strip (butlast s)) of
           Some n \<Rightarrow> Inr (Some (str_int n @ ''+''), Some n, None)
         | None \<Rightarrow> Inr (Some s, None, None))
      else if CHR ''-'' \<in> set s then
        (case split1 CHR ''-'' s of
           [a, b] \<Rightarrow>
             (case py_int (strip a) of
                None \<Rightarrow> Inr (Some s, None, None)
              | Some amin \<Rightarrow>
                  (case py_int (strip b) of
                     None \<Rightarrow> Inr (Some s, None, None)
                   | Some bmax \<Rightarrow> Inr (Some (str_int amin @ ''-'' @ str_int bmax), Some amin, Some bmax)))
         | _ \<Rightarrow> Inl ValueError)
      else
        (case py_int s of
           Some n \<Rightarrow> Inr (Some (str_int n), Some n, Some n)
         | None \<Rightarrow> Inr (Some s, None, None)))"

definition normalize_qs_ranking :: "pyval \<Rightarrow> exc + rank_triple" where
  "normalize_qs_ranking val =
     (if val = PNone then Inr (None, None, None)
      else let s = strip (py_str val)
           in if s = [] then Inr (None, None, None) else normalize_str s)"

section \<open>The rank normalizer of the Top-N script\<close>

definition parse_rank_bounds :: "pyval \<Rightarrow> exc + (int option \<times> int option)" where
  \<comment> \<open>\<open>int()\<close> is called after \<open>isdigit()\<close> outside any \<open>try\<close>: its \<open>ValueError\<close> propagates\<close>
  "parse_rank_bounds rank_str =
     (if rank_str = PNone then Inr (None, None)
      else let s = remove_char CHR ''='' (strip (py_str rank_str))
           in if s = [] then Inr (None, None)
              else if isdigit s then
                (case py_int s of None \<Rightarrow> Inl ValueError | Some n \<Rightarrow> Inr (Some n, Some n))
              else if CHR ''-'' \<in> set s then
                (case split1 CHR ''-'' s of
                   [a0, b0] \<Rightarrow>
                     (let a = strip a0; b = strip b0
                      in if isdigit a \<and> isdigit b then
                           (case py_int a of
                              None \<Rightarrow> Inl ValueError
                            | Some x \<Rightarrow>
                                (case py_int b of
                                   None \<Rightarrow> Inl ValueError
                                 | Some y \<Rightarrow> Inr (Some x, Some y)))
                         else Inr (None, None))
                 | _ \<Rightarrow> Inl ValueError)
              else Inr (None, None))"



section \<open>The retrying HTTP client\<close>

text \<open>
  \<open>HTTPClient.get_page\<close>. The session is an oracle giving, for each attempt (numbered from
  0 as the loop variable \<open>attempt\<close> is), what \<open>session.get\<close> does: a response with a
  status code, or one of the exceptions the loop distinguishes. The function returns the
  page (here its status code) or \<open>None\<close>, together with the trace of requests and sleeps.
  \<open>settings.MAX_RETRIES\<close> is the parameter \<open>max_retries\<close>; a sleep of
  \<open>settings.RETRY_DELAY\<close> is the event \<open>RetryDelay\<close>. The pause of \<open>_rate_limit\<close>
  depends on the wall clock and is not part of the trace.
\<close>

datatype outcome = Response nat | TimeoutException | RequestError | OtherException

datatype event = Request nat | Backoff nat | RetryDelay


fun get_page_loop :: "(nat \<Rightarrow> outcome) \<Rightarrow> int \<Rightarrow> nat list \<Rightarrow> event list \<Rightarrow> nat option \<times> event list" where
  "get_page_loop session retries [] tr = (None, tr)"
| "get_page_loop session retries (attempt # rest) tr =
     (let tr1 = tr @ [Request attempt] in
      case session attempt of
        Response status_code \<Rightarrow>
          if status_code = 200 then (Some status_code, tr1)
          else if status_code = 404 then (None, tr1)
          else if status_code \<in> {429, 503} then
            get_page_loop session retries rest (tr1 @ [Backoff ((2 ^ attempt) * 5)])
          else if int attempt < retries then get_page_loop session retries rest (tr1 @ [RetryDelay])
          else (None, tr1)
      | _ \<Rightarrow>
          if int attempt < retries then get_page_loop session retries rest (tr1 @ [RetryDelay])
          else (None, tr1))"

definition get_page :: "int \<Rightarrow> (nat \<Rightarrow> outcome) \<Rightarrow> int option \<Rightarrow> nat option \<times> event list" where
  "get_page max_retries session retries0 =
     (let retries = (case retries0 of None \<Rightarrow> max_retries | Some r \<Rightarrow> r)
      in get_page_loop session retries [0..<nat (retries + 1)] [])"




section \<open>Dynamic values: truthiness, dict operations, method calls\<close>

type_synonym pydict = "(string \<times> pyval) list"

fun truthy :: "pyval \<Rightarrow> bool" where
  "truthy PNone = False"
| "truthy (PBool b) = b"
| "truthy (PInt i) = (i \<noteq> 0)"
| "truthy (PFloat r) = (r \<noteq> ''0.0'' \<and> r \<noteq> ''-0.0'')"
| "truthy (PStr s) = (s \<noteq> [])"
| "truthy (PList xs) = (xs \<noteq> [])"
| "truthy (PDict d) = (d \<noteq> [])"

definition py_or :: "pyval \<Rightarrow> pyval \<Rightarrow> pyval" where
  \<comment> \<open>\<open>a or b\<close>\<close>
  "py_or a b = (if truthy a then a else b)"

definition dict_get :: "pydict \<Rightarrow> string \<Rightarrow> pyval" where
  \<comment> \<open>\<open>d.get(k)\<close>\<close>
  "dict_get d k = (case map_of d k of None \<Rightarrow> PNone | Some v \<Rightarrow> v)"

definition dict_get_default :: "pydict \<Rightarrow> string \<Rightarrow> pyval \<Rightarrow> pyval" where
  \<comment> \<open>\<open>d.get(k, default)\<close>: the default is used only when the key is absent\<close>
  "dict_get_default d k dflt = (case map_of d k of None \<Rightarrow> dflt | Some v \<Rightarrow> v)"

definition dict_has :: "pydict \<Rightarrow> string \<Rightarrow> bool" where
  \<comment> \<open>\<open>k in d\<close>\<close>
  "dict_has d k = (map_of d k \<noteq> None)"

fun dict_set :: "pydict \<Rightarrow> string \<Rightarrow> pyval \<Rightarrow> pydict" where
  \<comment> \<open>\<open>d[k] = v\<close>: an existing key keeps its position, a new key goes to the end\<close>
  "dict_set [] k v = [(k, v)]"
| "dict_set ((k', v') # d) k v = (if k' = k then (k, v) # d else (k', v') # dict_set d k v)"

definition dict_pop :: "pydict \<Rightarrow> string \<Rightarrow> pydict" where
  \<comment> \<open>\<open>d.pop(k, None)\<close>, the popped value dropped\<close>
  "dict_pop d k = filter (\<lambda>kv. fst kv \<noteq> k) d"

definition dict_merge :: "pydict \<Rightarrow> pydict \<Rightarrow> pydict" where
  \<comment> \<open>\<open>{**a, **b}\<close>\<close>
  "dict_merge a b = fold (\<lambda>kv d. dict_set d (fst kv) (snd kv)) b a"

definition drop_none :: "pydict \<Rightarrow> pydict" where
  \<comment> \<open>\<open>{k: v for k, v in d.items() if v is not None}\<close>\<close>
  "drop_none d = filter (\<lambda>kv. snd kv \<noteq> PNone) d"

definition str_strip :: "pyval \<Rightarrow> exc + string" where
  \<comment> \<open>\<open>x.strip()\<close>: only a \<open>str\<close> has the method\<close>
  "str_strip x = (case x of PStr s \<Rightarrow> Inr (strip s) | _ \<Rightarrow> Inl AttributeError)"

definition val_get :: "pyval \<Rightarrow> string \<Rightarrow> exc + pyval" where
  \<comment> \<open>\<open>x.get(k)\<close>: only a dict has the method\<close>
  "val_get x k = (case x of PDict d \<Rightarrow> Inr (dict_get d k) | _ \<Rightarrow> Inl AttributeError)"

definition val_index :: "pyval \<Rightarrow> string \<Rightarrow> exc + pyval" where
  \<comment> \<open>\<open>x[k]\<close> for a string key \<open>k\<close>\<close>
  "val_index x k =
     (case x of
        PDict d \<Rightarrow> (case map_of d k of None \<Rightarrow> Inl KeyError | Some v \<Rightarrow> Inr v)
      | _ \<Rightarrow> Inl TypeError)"

definition val_first :: "pyval \<Rightarrow> exc + pyval" where
  \<comment> \<open>\<open>x[0]\<close>; a dict with string keys has no key \<open>0\<close>\<close>
  "val_first x =
     (case x of
        PList xs \<Rightarrow> (case xs of [] \<Rightarrow> Inl IndexError | y # _ \<Rightarrow> Inr y)
      | PStr s \<Rightarrow> (case s of [] \<Rightarrow> Inl IndexError | c # _ \<Rightarrow> Inr (PStr [c]))
      | PDict d \<Rightarrow> Inl KeyError
      | _ \<Rightarrow> Inl TypeError)"

definition val_setitem :: "pyval \<Rightarrow> string \<Rightarrow> pyval \<Rightarrow> exc + pyval" where
  \<comment> \<open>\<open>x[k] = v\<close> for a string key \<open>k\<close>; the result is \<open>x\<close> after the assignment\<close>
  "val_setitem x k v = (case x of PDict d \<Rightarrow> Inr (PDict (dict_set d k v)) | _ \<Rightarrow> Inl TypeError)"

definition val_merge :: "pyval \<Rightarrow> pyval \<Rightarrow> exc + pydict" where
  \<comment> \<open>\<open>{**a, **b}\<close>: both operands must be mappings\<close>
  "val_merge a b =
     (case a of
        PDict da \<Rightarrow> (case b of PDict db \<Rightarrow> Inr (dict_merge da db) | _ \<Rightarrow> Inl TypeError)
      | _ \<Rightarrow> Inl TypeError)"

definition is_dict :: "pyval \<Rightarrow> bool" where
  "is_dict x = (case x of PDict d \<Rightarrow> True | _ \<Rightarrow> False)"

definition is_list :: "pyval \<Rightarrow> bool" where
  "is_list x = (case x of PList xs \<Rightarrow> True | _ \<Rightarrow> False)"

definition opt_str :: "string option \<Rightarrow> pyval" where
  "opt_str x = (case x of None \<Rightarrow> PNone | Some s \<Rightarrow> PStr s)"

definition opt_int :: "int option \<Rightarrow> pyval" where
  "opt_int x = (case x of None \<Rightarrow> PNone | Some n \<Rightarrow> PInt n)"

definition bind_exc :: "exc + 'a \<Rightarrow> ('a \<Rightarrow> exc + 'b) \<Rightarrow> exc + 'b" where
  \<comment> \<open>sequencing: an exception raised by the first step skips the rest\<close>
  "bind_exc x f = (case x of Inl e \<Rightarrow> Inl e | Inr v \<Rightarrow> f v)"

section \<open>The storage manager\<close>

definition is_empty_value :: "pyval \<Rightarrow> bool" where
  \<comment> \<open>\<open>_is_empty_value\<close>\<close>
  "is_empty_value v = (case v of PNone \<Rightarrow> True | PStr s \<Rightarrow> strip s = [] | _ \<Rightarrow> False)"

subsection \<open>The HTTP client of the store\<close>

text \<open>
  The manager reaches the catalogue through three HTTP calls on the table
  \<open>unreviewed_schools\<close>: a GET with one filter and \<open>limit=1\<close>, a POST of a row, and a PATCH
  of the rows with a given id. The client is a parameter: each call takes the state of the
  outside world and returns a response or an exception, and the new state. In a response,
  \<open>json_body\<close> is what \<open>r.json()\<close> returns (\<open>None\<close> when it raises), and \<open>json_content\<close> tells
  whether the body is non-empty with a JSON content type (the test of \<open>_json_or_none\<close>).
  The filter text is the value interpolated into the URL.
\<close>

record response =
  status_code :: nat
  json_body :: "pyval option"
  json_content :: bool

datatype query = IdEq string | WebsiteIlike string | NameIlike string

record 's client =
  http_get :: "query \<Rightarrow> 's \<Rightarrow> (exc + response) \<times> 's"
  http_post :: "pydict \<Rightarrow> 's \<Rightarrow> (exc + response) \<times> 's"
  http_patch :: "string \<Rightarrow> pydict \<Rightarrow> 's \<Rightarrow> (exc + response) \<times> 's"

definition json_or_none :: "response \<Rightarrow> pyval" where
  \<comment> \<open>\<open>_json_or_none\<close>\<close>
  "json_or_none r =
     (if json_content r then (case json_body r of None \<Rightarrow> PNone | Some v \<Rightarrow> v) else PNone)"

subsection \<open>\<open>get_unreviewed_school_by_match\<close>\<close>

definition lookup_step :: "'s client \<Rightarrow> query \<Rightarrow> 's \<Rightarrow> (exc + pyval option) \<times> 's" where
  \<comment> \<open>one lookup block: \<open>Inr (Some row)\<close> is \<open>return rows[0]\<close>, \<open>Inr None\<close> falls through\<close>
  "lookup_step c q s =
     (case http_get c q s of
        (Inl e, s') \<Rightarrow> (Inl e, s')
      | (Inr r, s') \<Rightarrow>
          if status_code r = 200 then
            (case json_body r of
               None \<Rightarrow> (Inl JSONDecodeError, s')
             | Some rows \<Rightarrow>
                 if truthy rows then
                   (case val_first rows of Inl e \<Rightarrow> (Inl e, s') | Inr row \<Rightarrow> (Inr (Some row), s'))
                 else (Inr None, s'))
          else (Inr None, s'))"

definition lookup_if :: "'s client \<Rightarrow> pyval \<Rightarrow> (string \<Rightarrow> query) \<Rightarrow> 's \<Rightarrow> (exc + pyval option) \<times> 's" where
  \<comment> \<open>\<open>if key: ...\<close> around a lookup block\<close>
  "lookup_if c key mk s = (if truthy key then lookup_step c (mk (py_str key)) s else (Inr None, s))"

definition get_unreviewed_school_by_match ::
  "'s client \<Rightarrow> pyval \<Rightarrow> pyval \<Rightarrow> pyval \<Rightarrow> 's \<Rightarrow> pyval \<times> 's" where
  "get_unreviewed_school_by_match c school_id website_url name s0 =
     (case lookup_if c school_id IdEq s0 of
        (Inl e, s1) \<Rightarrow> (PNone, s1)
      | (Inr (Some row), s1) \<Rightarrow> (row, s1)
      | (Inr None, s1) \<Rightarrow>
          (case lookup_if c website_url WebsiteIlike s1 of
             (Inl e, s2) \<Rightarrow> (PNone, s2)
           | (Inr (Some row), s2) \<Rightarrow> (row, s2)
           | (Inr None, s2) \<Rightarrow>
               (case lookup_if c name NameIlike s2 of
                  (Inl e, s3) \<Rightarrow> (PNone, s3)
                | (Inr (Some row), s3) \<Rightarrow> (row, s3)
                | (Inr None, s3) \<Rightarrow> (PNone, s3))))"

subsection \<open>\<open>patch_unreviewed_school\<close>\<close>

definition set_rank_keys :: "pyval \<Rightarrow> rank_triple \<Rightarrow> exc + pyval" where
  \<comment> \<open>the three conditional assignments \<open>raw["qs_ranking_display"] = disp\<close>, ...\<close>
  "set_rank_keys raw t =
     (case t of (disp, rmin, rmax) \<Rightarrow>
        bind_exc (case disp of None \<Rightarrow> Inr raw
                  | Some d \<Rightarrow> val_setitem raw ''qs_ranking_display'' (PStr d)) (\<lambda>raw1.
        bind_exc (case rmin of None \<Rightarrow> Inr raw1
                  | Some n \<Rightarrow> val_setitem raw1 ''qs_rank_min'' (PInt n)) (\<lambda>raw2.
        (case rmax of None \<Rightarrow> Inr raw2
         | Some n \<Rightarrow> val_setitem raw2 ''qs_rank_max'' (PInt n)))))"

definition patch_payload :: "pyval \<Rightarrow> pydict \<Rightarrow> exc + pydict" where
  \<comment> \<open>the payload \<open>patch_unreviewed_school\<close> builds from \<open>current\<close> and \<open>updates\<close>\<close>
  "patch_payload current updates =
     (let payload = drop_none updates in
      if dict_has payload ''qs_ranking'' then
        bind_exc (normalize_qs_ranking (dict_get payload ''qs_ranking'')) (\<lambda>t.
        case t of (disp, rmin, rmax) \<Rightarrow>
          let payload1 = (case rmin of Some n \<Rightarrow> dict_set payload ''qs_ranking'' (PInt n)
                          | None \<Rightarrow> dict_pop payload ''qs_ranking'') in
          bind_exc (val_get current ''raw_data'') (\<lambda>old.
          let old_raw = py_or old (PDict []);
              new_raw = py_or (dict_get updates ''raw_data'') (PDict []) in
          bind_exc (val_merge old_raw new_raw) (\<lambda>merged0.
          bind_exc (set_rank_keys (PDict merged0) t) (\<lambda>merged.
          Inr (dict_set payload1 ''raw_data'' merged)))))
      else if dict_has updates ''raw_data'' then
        bind_exc (val_get current ''raw_data'') (\<lambda>old.
        let old_raw = py_or old (PDict []);
            new_raw = py_or (dict_get updates ''raw_data'') (PDict []) in
        if is_dict old_raw \<and> is_dict new_raw then
          bind_exc (val_merge old_raw new_raw) (\<lambda>merged.
          Inr (dict_set payload ''raw_data'' (PDict merged)))
        else Inr payload)
      else Inr payload)"

definition patch_unreviewed_school :: "'s client \<Rightarrow> pyval \<Rightarrow> pydict \<Rightarrow> 's \<Rightarrow> bool \<times> 's" where
  "patch_unreviewed_school c school_id updates s0 =
     (if updates = [] then (True, s0)
      else
        case get_unreviewed_school_by_match c school_id PNone PNone s0 of (current, s1) \<Rightarrow>
          if current = PNone then (False, s1)
          else
            (case patch_payload current updates of
               Inl e \<Rightarrow> (False, s1)
             | Inr payload \<Rightarrow>
                 (case http_patch c (py_str school_id) payload s1 of
                    (Inl e, s2) \<Rightarrow> (False, s2)
                  | (Inr r, s2) \<Rightarrow> (status_code r = 200 \<or> status_code r = 204, s2))))"

subsection \<open>\<open>enrich_or_insert_unreviewed_school\<close>\<close>

text \<open>
  The function returns the pair \<open>(id, action)\<close>, the caller's \<open>data\<close> dict as the call leaves
  it, and the new state of the store. The dict is returned because \<open>raw\<close> is the very
  object \<open>data["raw_data"]\<close> whenever that value is truthy, so the assignments
  \<open>raw["qs_ranking_display"] = disp\<close>, ... are visible to the caller.
\<close>

definition candidate_fields :: "string list" where
  "candidate_fields = [''year_founded'', ''country'', ''location'', ''website_url'',
                       ''initial'', ''type'', ''confidence_score'', ''source_url'']"

fun stage_fill :: "pyval \<Rightarrow> pydict \<Rightarrow> string list \<Rightarrow> pydict \<Rightarrow> exc + pydict" where
  \<comment> \<open>the loop over \<open>candidate_fields\<close> when \<open>fill_only_empty\<close> is true\<close>
  "stage_fill existing data [] patch = Inr patch"
| "stage_fill existing data (f # fs) patch =
     bind_exc (val_get existing f) (\<lambda>old_v.
       let new_v = dict_get data f in
       stage_fill existing data fs
         (if is_empty_value old_v \<and> \<not> is_empty_value new_v then dict_set patch f new_v else patch))"

fun stage_override :: "pydict \<Rightarrow> string list \<Rightarrow> pydict \<Rightarrow> pydict" where
  \<comment> \<open>the loop over \<open>candidate_fields\<close> when \<open>fill_only_empty\<close> is false\<close>
  "stage_override data [] patch = patch"
| "stage_override data (f # fs) patch =
     stage_override data fs
       (if dict_get data f \<noteq> PNone then dict_set patch f (dict_get data f) else patch)"

definition stage_rank :: "bool \<Rightarrow> pyval \<Rightarrow> int option \<Rightarrow> pydict \<Rightarrow> exc + pydict" where
  "stage_rank fill_only_empty existing rmin patch =
     (case rmin of
        None \<Rightarrow> Inr patch
      | Some n \<Rightarrow>
          bind_exc (val_get existing ''qs_ranking'') (\<lambda>old_rank.
            if (fill_only_empty \<and> is_empty_value old_rank) \<or> \<not> fill_only_empty
            then Inr (dict_set patch ''qs_ranking'' (PInt n)) else Inr patch))"

definition write_back :: "pydict \<Rightarrow> pyval \<Rightarrow> pydict" where
  \<comment> \<open>\<open>data\<close> after the assignments to \<open>raw\<close>: changed only when \<open>raw\<close> is \<open>data["raw_data"]\<close>\<close>
  "write_back data raw =
     (if truthy (dict_get data ''raw_data'') then dict_set data ''raw_data'' raw else data)"

definition staged_patch :: "pydict \<Rightarrow> bool \<Rightarrow> rank_triple \<Rightarrow> pyval \<Rightarrow> exc + (pydict \<times> pyval)" where
  \<comment> \<open>the dict \<open>patch\<close> as it stands at \<open>if patch:\<close>, together with \<open>raw\<close>\<close>
  "staged_patch data fill_only_empty t existing =
     bind_exc (if fill_only_empty then stage_fill existing data candidate_fields []
               else Inr (stage_override data candidate_fields [])) (\<lambda>patch0.
     bind_exc (stage_rank fill_only_empty existing (fst (snd t)) patch0) (\<lambda>patch1.
     bind_exc (set_rank_keys (py_or (dict_get data ''raw_data'') (PDict [])) t) (\<lambda>raw.
       Inr (if truthy raw then dict_set patch1 ''raw_data'' raw else patch1, raw))))"

definition enrich_existing ::
  "'s client \<Rightarrow> pydict \<Rightarrow> bool \<Rightarrow> rank_triple \<Rightarrow> pyval \<Rightarrow> 's
   \<Rightarrow> (exc + (pyval \<times> string)) \<times> pydict \<times> 's" where
  \<comment> \<open>the branch \<open>if existing:\<close>\<close>
  "enrich_existing c data fill_only_empty t existing s =
     (case staged_patch data fill_only_empty t existing of
        Inl e \<Rightarrow> (Inl e, data, s)
      | Inr (patch, raw) \<Rightarrow>
          let data' = write_back data raw
          in (case val_index existing ''id'' of
                Inl e \<Rightarrow> (Inl e, data', s)
              | Inr existing_id \<Rightarrow>
                  if patch \<noteq> [] then
                    (case patch_unreviewed_school c existing_id patch s of (ok, s') \<Rightarrow>
                       (Inr (if ok then existing_id else PNone,
                             if ok then ''enriched'' else ''skipped''), data', s'))
                  else (Inr (existing_id, ''skipped''), data', s)))"

definition insert_payload0 :: "pydict \<Rightarrow> rank_triple \<Rightarrow> string \<Rightarrow> string \<Rightarrow> string \<Rightarrow> pydict" where
  \<comment> \<open>the dict literal \<open>insert_payload\<close>\<close>
  "insert_payload0 data t name website_url source_url =
     [(''name'', PStr name),
      (''initial'', dict_get data ''initial''),
      (''type'', dict_get data ''type''),
      (''country'', dict_get data ''country''),
      (''location'', dict_get data ''location''),
      (''year_founded'', dict_get data ''year_founded''),
      (''qs_ranking'', opt_int (fst (snd t))),
      (''website_url'', py_or (PStr website_url) (dict_get data ''website'')),
      (''source_url'', PStr source_url),
      (''confidence_score'', dict_get_default data ''confidence_score'' (PFloat ''0.0'')),
      (''raw_data'', dict_get_default data ''raw_data'' (PDict [])),
      (''status'', dict_get_default data ''status'' (PStr ''pending''))]"

definition inserted_id :: "response \<Rightarrow> exc + pyval" where
  \<comment> \<open>\<open>(res or [{}])[0].get("id") if isinstance(res, list) else None\<close>\<close>
  "inserted_id r =
     (let res = json_or_none r in
      if is_list res then
        bind_exc (val_first (py_or res (PList [PDict []]))) (\<lambda>row. val_get row ''id'')
      else Inr PNone)"

definition insert_new ::
  "'s client \<Rightarrow> pydict \<Rightarrow> rank_triple \<Rightarrow> string \<Rightarrow> string \<Rightarrow> string \<Rightarrow> 's
   \<Rightarrow> (exc + (pyval \<times> string)) \<times> pydict \<times> 's" where
  \<comment> \<open>the insert branch\<close>
  "insert_new c data t name website_url source_url s =
     (let payload0 = insert_payload0 data t name website_url source_url in
      case set_rank_keys (py_or (dict_get payload0 ''raw_data'') (PDict [])) t of
        Inl e \<Rightarrow> (Inl e, data, s)
      | Inr raw \<Rightarrow>
          let data' = write_back data raw;
              payload = drop_none (dict_set payload0 ''raw_data'' raw)
          in (case http_post c payload s of
                (Inl e, s') \<Rightarrow> (Inl e, data', s')
              | (Inr r, s') \<Rightarrow>
                  if status_code r = 200 \<or> status_code r = 201 then
                    (case inserted_id r of
                       Inl e \<Rightarrow> (Inl e, data', s')
                     | Inr row_id \<Rightarrow> (Inr (row_id, ''inserted''), data', s'))
                  else (Inr (PNone, ''skipped''), data', s')))"

definition enrich_body ::
  "'s client \<Rightarrow> pydict \<Rightarrow> bool \<Rightarrow> 's \<Rightarrow> (exc + (pyval \<times> string)) \<times> pydict \<times> 's" where
  \<comment> \<open>the body of the \<open>try\<close>\<close>
  "enrich_body c data fill_only_empty s =
     (case str_strip (py_or (dict_get data ''name'') (PStr [])) of
        Inl e \<Rightarrow> (Inl e, data, s)
      | Inr name \<Rightarrow>
     (case str_strip (py_or (dict_get data ''website_url'')
                        (py_or (dict_get data ''website'') (PStr []))) of
        Inl e \<Rightarrow> (Inl e, data, s)
      | Inr website_url \<Rightarrow>
     (case str_strip (py_or (dict_get data ''source_url'') (PStr [])) of
        Inl e \<Rightarrow> (Inl e, data, s)
      | Inr source_url \<Rightarrow>
     (case normalize_qs_ranking (dict_get data ''qs_ranking'') of
        Inl e \<Rightarrow> (Inl e, data, s)
      | Inr t \<Rightarrow>
     (case get_unreviewed_school_by_match c PNone
             (py_or (PStr website_url) PNone) (py_or (PStr name) PNone) s of
        (existing, s1) \<Rightarrow>
          if truthy existing then enrich_existing c data fill_only_empty t existing s1
          else insert_new c data t name website_url source_url s1)))))"

definition enrich_or_insert_unreviewed_school ::
  "'s client \<Rightarrow> pydict \<Rightarrow> bool \<Rightarrow> 's \<Rightarrow> (pyval \<times> string) \<times> pydict \<times> 's" where
  \<comment> \<open>\<open>except Exception\<close>: every exception of the body becomes \<open>(None, "skipped")\<close>\<close>
  "enrich_or_insert_unreviewed_school c data fill_only_empty s =
     (case enrich_body c data fill_only_empty s of
        (Inl e, data', s') \<Rightarrow> ((PNone, ''skipped''), data', s')
      | (Inr res, data', s') \<Rightarrow> (res, data', s'))"

section \<open>The record store\<close>

text \<open>
  Modelled from the spec: the store behind the HTTP calls is an external service whose code
  is not part of the repository. This model follows the RecordStore interface of the
  specification: \<open>find\<close> returns the first row whose website URL, or whose name, contains
  the given text (or whose id is the given one), \<open>insert\<close> adds the row under a fresh id and
  returns it, and \<open>patch\<close> overwrites the given fields of the rows with the given id. Ids
  are the decimal numerals of a counter. Every call succeeds.
\<close>

record store =
  rows :: "pydict list"
  next_id :: nat

fun contains :: "string \<Rightarrow> string \<Rightarrow> bool" where
  \<comment> \<open>\<open>contains pat s\<close>: \<open>pat\<close> occurs in \<open>s\<close>\<close>
  "contains pat [] = (pat = [])"
| "contains pat (c # cs) = (take (length pat) (c # cs) = pat \<or> contains pat cs)"

definition field_contains :: "pydict \<Rightarrow> string \<Rightarrow> string \<Rightarrow> bool" where
  "field_contains row f pat = (case dict_get row f of PStr v \<Rightarrow> contains pat v | _ \<Rightarrow> False)"

fun matches :: "query \<Rightarrow> pydict \<Rightarrow> bool" where
  "matches (IdEq t) row = (dict_has row ''id'' \<and> py_str (dict_get row ''id'') = t)"
| "matches (WebsiteIlike p) row = field_contains row ''website_url'' p"
| "matches (NameIlike p) row = field_contains row ''name'' p"

definition ok_response :: "nat \<Rightarrow> pydict list \<Rightarrow> response" where
  "ok_response code rs =
     \<lparr>status_code = code, json_body = Some (PList (map PDict rs)), json_content = True\<rparr>"

definition store_get :: "query \<Rightarrow> store \<Rightarrow> (exc + response) \<times> store" where
  "store_get q st =
     (Inr (ok_response 200 (case find (matches q) (rows st) of None \<Rightarrow> [] | Some r \<Rightarrow> [r])), st)"

definition store_post :: "pydict \<Rightarrow> store \<Rightarrow> (exc + response) \<times> store" where
  "store_post payload st =
     (let row = dict_set payload ''id'' (PStr (str_nat (next_id st)))
      in (Inr (ok_response 201 [row]),
          st\<lparr>rows := rows st @ [row], next_id := Suc (next_id st)\<rparr>))"

definition store_patch :: "string \<Rightarrow> pydict \<Rightarrow> store \<Rightarrow> (exc + response) \<times> store" where
  "store_patch idtext payload st =
     (let upd = (\<lambda>row. if matches (IdEq idtext) row then dict_merge row payload else row)
      in (Inr (ok_response 200 (map upd (filter (matches (IdEq idtext)) (rows st)))),
          st\<lparr>rows := map upd (rows st)\<rparr>))"

definition store_client :: "store client" where
  "store_client = \<lparr>http_get = store_get, http_post = store_post, http_patch = store_patch\<rparr>"

definition rejecting_client :: "store client" where
  \<comment> \<open>the same store behind an endpoint that answers every PATCH with status 500\<close>
  "rejecting_client =
     store_client\<lparr>http_patch :=
       (\<lambda>idtext payload st. (Inr \<lparr>status_code = 500, json_body = None, json_content = False\<rparr>, st))\<rparr>"



subsection \<open>Well-formed stores and candidates\<close>

definition scalar_fields :: "string list" where
  "scalar_fields = [''country'', ''location'', ''year_founded'', ''website_url'', ''initial'',
                    ''type'', ''confidence_score'', ''source_url'', ''qs_ranking'']"

definition row_ids :: "store \<Rightarrow> string list" where
  \<comment> \<open>the id texts under which the rows answer an \<open>id=eq.\<close> filter\<close>
  "row_ids st = map (\<lambda>r. py_str (dict_get r ''id'')) (filter (\<lambda>r. dict_has r ''id'') (rows st))"

definition unique_ids :: "store \<Rightarrow> bool" where
  \<comment> \<open>the id is a key of the table\<close>
  "unique_ids st = distinct (row_ids st)"

definition fresh_counter :: "store \<Rightarrow> bool" where
  \<comment> \<open>the counter is ahead of every id in use\<close>
  "fresh_counter st = (str_nat (next_id st) \<notin> set (row_ids st))"

definition preserved :: "store \<Rightarrow> store \<Rightarrow> bool" where
  \<comment> \<open>every row is still there, at its place, and has kept each non-empty field other
      than \<open>raw_data\<close>\<close>
  "preserved st st' =
     (length (rows st) \<le> length (rows st')
      \<and> (\<forall>i < length (rows st). \<forall>f. f \<noteq> ''raw_data'' \<and> \<not> is_empty_value (dict_get (rows st ! i) f)
             \<longrightarrow> dict_get (rows st' ! i) f = dict_get (rows st ! i) f))"

definition str_or_none :: "pyval \<Rightarrow> bool" where
  "str_or_none v = (case v of PNone \<Rightarrow> True | PStr s \<Rightarrow> True | _ \<Rightarrow> False)"

definition dict_or_none :: "pyval \<Rightarrow> bool" where
  \<comment> \<open>\<open>None\<close> or a dict; a Python dict holds each key once\<close>
  "dict_or_none v = (case v of PNone \<Rightarrow> True | PDict d \<Rightarrow> distinct (map fst d) | _ \<Rightarrow> False)"

definition well_typed :: "pydict \<Rightarrow> bool" where
  \<comment> \<open>a candidate whose URLs are strings (or missing) and whose \<open>raw_data\<close> is a dict (or missing)\<close>
  "well_typed data =
     (str_or_none (dict_get data ''website_url'') \<and> str_or_none (dict_get data ''source_url'')
      \<and> dict_or_none (dict_get data ''raw_data''))"

definition inserted_row ::
  "pydict \<Rightarrow> rank_triple \<Rightarrow> string \<Rightarrow> string \<Rightarrow> string \<Rightarrow> pyval \<Rightarrow> nat \<Rightarrow> pydict" where
  \<comment> \<open>the row the store holds after the insert branch has posted its payload under id \<open>k\<close>\<close>
  "inserted_row data t name website_url source_url raw k =
     dict_set (drop_none (dict_set (insert_payload0 data t name website_url source_url)
                            ''raw_data'' raw)) ''id'' (PStr (str_nat k))"



section \<open>Properties of the string primitives and of the rank normalizers\<close>

declare str_nat.simps [simp del]

lemma dec_not_special:
  assumes "is_dec c"
  shows "\<not> is_space c" "\<not> is_int_space c" "c \<noteq> CHR ''-''" "c \<noteq> CHR ''+''" "c \<noteq> CHR ''=''" "c \<noteq> CHR ''_''"
  using assms by (auto simp: is_dec_def is_space_def is_int_space_def)

lemma minus_not_space: "\<not> is_space CHR ''-''" "\<not> is_int_space CHR ''-''"
  by (simp_all add: is_space_def is_int_space_def)

lemma is_dec_digit_char: "d < 10 \<Longrightarrow> is_dec (digit_char d)"
  by (simp add: is_dec_def digit_char_def)

lemma of_char_digit_char: "d < 10 \<Longrightarrow> of_char (digit_char d) - 48 = d"
  by (simp add: digit_char_def)

lemma str_nat_nonempty: "str_nat n \<noteq> []"
  by (subst str_nat.simps) simp

lemma str_nat_dec: "list_all is_dec (str_nat n)"
proof (induction n rule: str_nat.induct)
  case (1 n)
  show ?case
  proof (cases "n < 10")
    case True
    then show ?thesis by (subst str_nat.simps) (simp add: is_dec_digit_char)
  next
    case False
    with 1 show ?thesis by (subst str_nat.simps) (simp add: is_dec_digit_char)
  qed
qed

lemma int_digits_dec:
  "list_all is_dec ds \<Longrightarrow>
   int_digits p acc ds = (if ds = [] then (if p then Some acc else None) else Some (dec_value acc ds))"
  by (induction ds arbitrary: p acc) (auto simp: dec_value_def)

lemma dec_value_str_nat: "dec_value 0 (str_nat n) = n"
proof (induction n rule: str_nat.induct)
  case (1 n)
  show ?case
  proof (cases "n < 10")
    case True
    then show ?thesis by (subst str_nat.simps) (simp add: dec_value_def of_char_digit_char)
  next
    case False
    with 1 have "dec_value 0 (str_nat (n div 10)) = n div 10" by simp
    with False show ?thesis
      by (subst str_nat.simps) (simp add: dec_value_def of_char_digit_char)
  qed
qed

lemma strip_by_id:
  assumes "s \<noteq> []" "\<not> p (hd s)" "\<not> p (last s)"
  shows "strip_by p s = s"
proof -
  from assms have "dropWhile p s = s" by (cases s) auto
  moreover from assms have "dropWhile p (rev s) = rev s"
    by (cases "rev s") (auto simp: last_rev hd_rev)
  ultimately show ?thesis by (simp add: strip_by_def)
qed

lemma strip_by_ends:
  assumes "strip_by p s \<noteq> []"
  shows "\<not> p (hd (strip_by p s))" "\<not> p (last (strip_by p s))"
proof -
  let ?t = "dropWhile p s"
  let ?u = "dropWhile p (rev ?t)"
  from assms have u: "?u \<noteq> []" by (simp add: strip_by_def)
  then have "\<not> p (hd ?u)" using hd_dropWhile by blast
  then show "\<not> p (last (strip_by p s))" using u by (simp add: strip_by_def last_rev)
  have t: "?t \<noteq> []"
  proof
    assume "?t = []"
    then have "?u = []" by (simp only: rev.simps dropWhile.simps)
    with u show False ..
  qed
  then have nt: "\<not> p (hd ?t)" using hd_dropWhile by blast
  have "\<exists>ys. rev ?t = ys @ ?u" by (metis takeWhile_dropWhile_id)
  then obtain ys where "rev ?t = ys @ ?u" by blast
  then have "?t = rev ?u @ rev ys" by (metis rev_append rev_rev_ident)
  then have "hd ?t = hd (rev ?u)" using u by (metis hd_append2 rev_is_Nil_conv)
  with nt show "\<not> p (hd (strip_by p s))" by (simp add: strip_by_def)
qed

lemma strip_by_idem: "strip_by p (strip_by p s) = strip_by p s"
proof (cases "strip_by p s = []")
  case True
  have "strip_by p [] = []" by (simp add: strip_by_def)
  with True show ?thesis by simp
next
  case False
  then show ?thesis using strip_by_ends strip_by_id by blast
qed

lemma set_strip_by: "set (strip_by p s) \<subseteq> set s"
proof -
  have "set (strip_by p s) = set (dropWhile p (rev (dropWhile p s)))" by (simp add: strip_by_def)
  also have "\<dots> \<subseteq> set (rev (dropWhile p s))" by (rule set_dropWhileD[THEN subsetI]) simp
  also have "\<dots> \<subseteq> set s" using set_dropWhileD by fastforce
  finally show ?thesis .
qed


lemma str_nat_hd_last: "is_dec (hd (str_nat n))" "is_dec (last (str_nat n))"
  using str_nat_dec[of n] str_nat_nonempty[of n]
  by (simp_all add: list_all_iff)

lemma str_int_nonempty: "str_int i \<noteq> []"
  by (simp add: str_int_def str_nat_nonempty)

lemma str_int_last: "is_dec (last (str_int i))"
  by (simp add: str_int_def str_nat_nonempty str_nat_hd_last)

lemma str_int_hd: "hd (str_int i) = CHR ''-'' \<or> is_dec (hd (str_int i))"
  by (simp add: str_int_def str_nat_hd_last)

lemma str_int_nonneg: "0 \<le> i \<Longrightarrow> str_int i = str_nat (nat i)"
  by (simp add: str_int_def)

lemma py_int_dec:
  assumes "list_all is_dec ds" "ds \<noteq> []"
  shows "py_int ds = Some (int (dec_value 0 ds))"
proof -
  from assms obtain c cs where ds: "ds = c # cs" by (cases ds) auto
  with assms have c: "is_dec c" by simp
  from assms have "is_dec (last ds)" by (simp add: list_all_iff)
  with assms c ds have "strip_by is_int_space ds = ds"
    by (intro strip_by_id) (auto simp: dec_not_special)
  with assms c ds show ?thesis
    using int_digits_dec[of ds False 0]
    by (simp add: py_int_def dec_not_special)
qed

lemma py_int_str_nat: "py_int (str_nat n) = Some (int n)"
  by (simp add: py_int_dec str_nat_dec str_nat_nonempty dec_value_str_nat)

lemma py_int_str_int: "py_int (str_int i) = Some i"
proof (cases "i < 0")
  case False
  then show ?thesis by (simp add: str_int_def py_int_str_nat)
next
  case True
  let ?ds = "str_nat (nat (- i))"
  have "strip_by is_int_space (CHR ''-'' # ?ds) = CHR ''-'' # ?ds"
    using str_nat_hd_last(2)[of "nat (- i)"]
    by (intro strip_by_id) (auto simp: minus_not_space dec_not_special str_nat_nonempty)
  moreover have "int_digits False 0 ?ds = Some (nat (- i))"
    using int_digits_dec[of ?ds False 0]
    by (simp add: str_nat_dec str_nat_nonempty dec_value_str_nat)
  ultimately show ?thesis using True by (simp add: py_int_def str_int_def)
qed

lemma strip_str_int: "strip (str_int i) = str_int i"
  unfolding strip_def
  using str_int_hd[of i] str_int_last[of i]
  by (intro strip_by_id) (auto simp: str_int_nonempty minus_not_space dec_not_special)

lemma py_int_no_minus_nonneg:
  assumes "py_int s = Some n" "CHR ''-'' \<notin> set s"
  shows "0 \<le> n"
proof -
  have "CHR ''-'' \<notin> set (strip_by is_int_space s)" using assms(2) set_strip_by by blast
  with assms(1) show ?thesis
    by (auto simp: py_int_def split: list.splits if_splits)
qed


lemma not_dec_special:
  "\<not> is_dec CHR ''-''" "\<not> is_dec CHR ''+''" "\<not> is_dec CHR ''=''" "\<not> is_dec CHR ''_''"
  by (simp_all add: is_dec_def)

lemma split1_two: "c \<in> set s \<Longrightarrow> \<exists>a b. split1 c s = [a, b]"
  by (simp add: split1_def)



lemma normalize_str_failcase:
  "normalize_str s = Inr (Some d, None, hi) \<Longrightarrow> d = s \<and> hi = None"
  by (auto simp: normalize_str_def split1_def split: if_splits option.splits)

lemma startswith_str_int: "\<not> startswith (str_int i @ r) CHR ''=''"
  using str_int_hd[of i] str_int_nonempty[of i]
  by (cases "str_int i") (auto simp: startswith_def not_dec_special)

lemma endswith_str_int: "\<not> endswith (r @ str_int i) CHR ''+''"
  using str_int_last[of i] str_int_nonempty[of i]
  by (auto simp: endswith_def not_dec_special)

lemma str_nat_no_minus: "CHR ''-'' \<notin> set (str_nat n)"
  using str_nat_dec[of n] by (auto simp: list_all_iff not_dec_special)

lemma split1_first: "c \<notin> set xs \<Longrightarrow> split1 c (xs @ c # r) = [xs, r]"
proof -
  assume a: "c \<notin> set xs"
  then have "takeWhile (\<lambda>x. x \<noteq> c) (xs @ c # r) = xs"
    by (subst takeWhile_append2) auto
  moreover from a have "dropWhile (\<lambda>x. x \<noteq> c) (xs @ c # r) = c # r"
    by (subst dropWhile_append2) auto
  ultimately show ?thesis by (simp add: split1_def)
qed

lemma split1_parts:
  assumes "c \<in> set s" "split1 c s = [a, b]"
  shows "s = a @ c # b" "c \<notin> set a"
proof -
  let ?P = "\<lambda>x. x \<noteq> c"
  from assms have a: "a = takeWhile ?P s" and b: "b = tl (dropWhile ?P s)"
    by (simp_all add: split1_def)
  from assms(1) have ne: "dropWhile ?P s \<noteq> []" by (simp add: dropWhile_eq_Nil_conv)
  then have "hd (dropWhile ?P s) = c" using hd_dropWhile[of ?P s] by simp
  with ne have "dropWhile ?P s = c # b" unfolding b by (cases "dropWhile ?P s") auto
  then show "s = a @ c # b" unfolding a by (metis takeWhile_dropWhile_id)
  show "c \<notin> set a" unfolding a using set_takeWhileD by fastforce
qed

lemma normalize_str_idem:
  assumes "normalize_str s = Inr (Some d, lo, hi)"
  shows "normalize_str d = Inr (Some d, lo, hi)"
proof (cases lo)
  case None
  with assms have "d = s" "hi = None" using normalize_str_failcase by blast+
  with assms show ?thesis by simp
next
  case (Some n)
  show ?thesis
  proof (cases "startswith s CHR ''=''")
    case True
    with assms Some have d: "d = CHR ''='' # str_int n" and hi: "hi = Some n"
      by (auto simp: normalize_str_def split: option.splits)
    show ?thesis unfolding d hi Some
      by (simp add: normalize_str_def startswith_def strip_str_int py_int_str_int)
  next
    case ns: False
    show ?thesis
    proof (cases "endswith s CHR ''+''")
      case True
      with assms Some ns have d: "d = str_int n @ ''+''" and hi: "hi = None"
        by (auto simp: normalize_str_def split: option.splits)
      have "\<not> startswith (str_int n @ ''+'') CHR ''=''" by (rule startswith_str_int)
      then show ?thesis unfolding d hi Some
        by (simp add: normalize_str_def endswith_def strip_str_int py_int_str_int butlast_append)
    next
      case ne: False
      show ?thesis
      proof (cases "CHR ''-'' \<in> set s")
        case True
        then obtain a b where ab: "split1 CHR ''-'' s = [a, b]" using split1_two by blast
        with assms Some ns ne True obtain m where
          pa: "py_int (strip a) = Some n" and pb: "py_int (strip b) = Some m"
          and d: "d = str_int n @ ''-'' @ str_int m" and hi: "hi = Some m"
          by (auto simp: normalize_str_def split: option.splits)
        have "CHR ''-'' \<notin> set a" using split1_parts(2)[OF True ab] .
        then have "CHR ''-'' \<notin> set (strip a)" using set_strip_by unfolding strip_def by blast
        with pa have "0 \<le> n" using py_int_no_minus_nonneg by blast
        then have sn: "str_int n = str_nat (nat n)" by (simp add: str_int_nonneg)
        have sp: "split1 CHR ''-'' (str_nat (nat n) @ CHR ''-'' # str_int m) = [str_nat (nat n), str_int m]"
          by (rule split1_first) (rule str_nat_no_minus)
        have n1: "\<not> startswith (str_int n @ ''-'' @ str_int m) CHR ''=''" by (rule startswith_str_int)
        have n2: "\<not> endswith ((str_int n @ ''-'') @ str_int m) CHR ''+''" by (rule endswith_str_int)
        have st: "strip (str_nat (nat n)) = str_int n" using strip_str_int[of n] sn by simp
        show ?thesis unfolding d hi Some using n1 n2 sp st
          by (simp add: normalize_str_def sn[symmetric] strip_str_int py_int_str_int)
      next
        case False
        with assms Some ns ne have pn: "py_int s = Some n" and d: "d = str_int n" and hi: "hi = Some n"
          by (auto simp: normalize_str_def split: option.splits)
        from pn False have "0 \<le> n" using py_int_no_minus_nonneg by blast
        then have sn: "str_int n = str_nat (nat n)" by (simp add: str_int_nonneg)
        have n1: "\<not> startswith (str_int n @ []) CHR ''=''" by (rule startswith_str_int)
        have n2: "\<not> endswith ([] @ str_int n) CHR ''+''" by (rule endswith_str_int)
        have n3: "CHR ''-'' \<notin> set (str_int n)" unfolding sn by (rule str_nat_no_minus)
        show ?thesis unfolding d hi Some using n1 n2 n3
          by (simp add: normalize_str_def py_int_str_int)
      qed
    qed
  qed
qed


lemma normalize_str_display:
  assumes "s \<noteq> []" "strip s = s" "normalize_str s = Inr (Some d, lo, hi)"
  shows "d \<noteq> [] \<and> strip d = d"
proof (cases "d = s")
  case True
  with assms show ?thesis by simp
next
  case False
  have sp: "\<not> is_space CHR ''=''" "\<not> is_space CHR ''+''" by (simp_all add: is_space_def)
  have hd_ok: "\<not> is_space (hd (str_int i))" for i
    using str_int_hd[of i] by (auto simp: minus_not_space dec_not_special)
  have last_ok: "\<not> is_space (last (str_int i))" for i
    using str_int_last[of i] by (auto simp: dec_not_special)
  from assms(3) False consider
      (eq) n where "d = CHR ''='' # str_int n"
    | (plus) n where "d = str_int n @ ''+''"
    | (band) n m where "d = str_int n @ ''-'' @ str_int m"
    | (plain) n where "d = str_int n"
    by (auto simp: normalize_str_def split: if_splits option.splits list.splits)
  then show ?thesis
  proof cases
    case eq
    have "strip_by is_space (CHR ''='' # str_int n) = CHR ''='' # str_int n"
      using last_ok[of n] by (intro strip_by_id) (auto simp: sp str_int_nonempty)
    with eq show ?thesis by (simp add: strip_def)
  next
    case plus
    have "strip_by is_space (str_int n @ ''+'') = str_int n @ ''+''"
      using hd_ok[of n] by (intro strip_by_id) (auto simp: sp str_int_nonempty)
    with plus show ?thesis by (simp add: strip_def str_int_nonempty)
  next
    case band
    have "strip_by is_space (str_int n @ ''-'' @ str_int m) = str_int n @ ''-'' @ str_int m"
      using hd_ok[of n] last_ok[of m] by (intro strip_by_id) (auto simp: str_int_nonempty)
    with band show ?thesis by (simp add: strip_def str_int_nonempty)
  next
    case plain
    then show ?thesis by (simp add: strip_str_int str_int_nonempty)
  qed
qed

lemma normalize_idem:
  assumes "normalize_qs_ranking v = Inr (Some d, lo, hi)"
  shows "normalize_qs_ranking (PStr d) = Inr (Some d, lo, hi)"
proof -
  let ?s = "strip (py_str v)"
  from assms have ne: "?s \<noteq> []" and ns: "normalize_str ?s = Inr (Some d, lo, hi)"
    by (auto simp: normalize_qs_ranking_def Let_def split: if_splits)
  have "strip ?s = ?s" by (simp add: strip_def strip_by_idem)
  with ne ns have "d \<noteq> []" "strip d = d" using normalize_str_display by blast+
  moreover from ns have "normalize_str d = Inr (Some d, lo, hi)" by (rule normalize_str_idem)
  ultimately show ?thesis by (simp add: normalize_qs_ranking_def py_str_def)
qed

subsection \<open>Literal cases and totality\<close>










subsection \<open>The two normalizers on digit strings and integers\<close>

lemma strip_digits: "list_all is_dec a \<Longrightarrow> strip a = a"
proof (cases "a = []")
  case True
  then show ?thesis by (simp add: strip_def strip_by_def)
next
  case False
  assume d: "list_all is_dec a"
  with False have "is_dec (hd a)" "is_dec (last a)" by (simp_all add: list_all_iff)
  with False show ?thesis unfolding strip_def
    by (intro strip_by_id) (auto simp: dec_not_special)
qed

lemma digits_no_special:
  assumes "list_all is_dec a"
  shows "CHR ''-'' \<notin> set a" "CHR ''='' \<notin> set a" "CHR ''+'' \<notin> set a"
  using assms by (auto simp: list_all_iff not_dec_special is_dec_def)

lemma isdigit_digits: "list_all is_dec a \<Longrightarrow> a \<noteq> [] \<Longrightarrow> isdigit a"
  by (auto simp: isdigit_def is_digit_char_def list_all_iff)

lemma py_int_Some_nonempty: "py_int a = Some n \<Longrightarrow> a \<noteq> []"
  by (auto simp: py_int_def strip_by_def)

lemma remove_char_id: "c \<notin> set s \<Longrightarrow> remove_char c s = s"
  by (auto simp: remove_char_def filter_id_conv)

lemma not_isdigit_minus: "CHR ''-'' \<in> set s \<Longrightarrow> \<not> isdigit s"
proof -
  have "\<not> is_digit_char CHR ''-''" by (simp add: is_digit_char_def is_dec_def)
  then show "CHR ''-'' \<in> set s \<Longrightarrow> \<not> isdigit s"
    by (auto simp: isdigit_def list_all_iff)
qed


lemma band_qs:
  assumes "list_all is_dec a" "list_all is_dec b" "py_int a = Some lo" "py_int b = Some hi"
  shows "normalize_qs_ranking (PStr (a @ ''-'' @ b)) = Inr (Some (str_int lo @ ''-'' @ str_int hi), Some lo, Some hi)"
proof -
  let ?s = "a @ ''-'' @ b"
  from assms have ne: "a \<noteq> []" "b \<noteq> []" using py_int_Some_nonempty by blast+
  with assms have hl: "is_dec (hd ?s)" "is_dec (last ?s)" by (simp_all add: list_all_iff)
  then have st: "strip ?s = ?s" unfolding strip_def
    by (intro strip_by_id) (auto simp: dec_not_special)
  from hl ne have n1: "\<not> startswith ?s CHR ''=''"
    by (cases a) (auto simp: startswith_def not_dec_special)
  from hl have n2: "\<not> endswith ?s CHR ''+''" by (auto simp: endswith_def not_dec_special)
  have sp: "split1 CHR ''-'' ?s = [a, b]"
    using split1_first[of "CHR ''-''" a b] digits_no_special(1)[OF assms(1)] by simp
  show ?thesis using st n1 n2 sp assms ne
    by (simp add: normalize_qs_ranking_def py_str_def normalize_str_def strip_digits)
qed

lemma band_topN:
  assumes "list_all is_dec a" "list_all is_dec b" "py_int a = Some lo" "py_int b = Some hi"
  shows "parse_rank_bounds (PStr (a @ ''-'' @ b)) = Inr (Some lo, Some hi)"
proof -
  let ?s = "a @ ''-'' @ b"
  from assms have ne: "a \<noteq> []" "b \<noteq> []" using py_int_Some_nonempty by blast+
  with assms have hl: "is_dec (hd ?s)" "is_dec (last ?s)" by (simp_all add: list_all_iff)
  then have st: "strip ?s = ?s" unfolding strip_def
    by (intro strip_by_id) (auto simp: dec_not_special)
  have rm: "remove_char CHR ''='' ?s = ?s"
    using digits_no_special(2)[OF assms(1)] digits_no_special(2)[OF assms(2)]
    by (intro remove_char_id) auto
  have nd: "\<not> isdigit ?s" by (rule not_isdigit_minus) simp
  have sp: "split1 CHR ''-'' ?s = [a, b]"
    using split1_first[of "CHR ''-''" a b] digits_no_special(1)[OF assms(1)] by simp
  show ?thesis using st rm nd sp assms ne
    by (simp add: parse_rank_bounds_def py_str_def strip_digits isdigit_digits)
qed











lemma strip_empty: "strip [] = []"
  by (simp add: strip_def strip_by_def)




subsection \<open>Order of the bounds\<close>

text \<open>
  Claim C3, as stated, says that whenever the normalizer returns both bounds, lower \<open>\<le>\<close> upper.
  The band branch copies the two integers in the order they are written, so a band written
  in descending order gives lower \<open>>\<close> upper: \<open>"250-201"\<close> yields \<open>(250, 201)\<close>.
\<close>

theorem C3_counterexample:
  "normalize_qs_ranking (PStr ''250-201'') = Inr (Some ''250-201'', Some 250, Some 201)
   \<and> \<not> (250 \<le> (201 :: int))"
  by code_simp

lemma normalize_str_bounds:
  assumes "normalize_str s = Inr (d, Some lo, Some hi)"
  shows "lo = hi \<or> (\<exists>a b. split1 CHR ''-'' s = [a, b] \<and> py_int (strip a) = Some lo
                          \<and> py_int (strip b) = Some hi)"
  using assms
  by (auto simp: normalize_str_def split: if_splits option.splits list.splits)

text \<open>
  Claim C3, amended. If the normalizer returns both bounds, then lower \<open>\<le>\<close> upper unless the
  input is a band \<open>a-b\<close> (split at its first \<open>-\<close>) whose first integer is larger than its
  second; in that case lower and upper are those two integers in the order written.
\<close>

theorem C3_bounds_order_amended:
  assumes "normalize_qs_ranking v = Inr (d, Some lo, Some hi)"
  shows "lo \<le> hi \<or> (\<exists>a b. split1 CHR ''-'' (strip (py_str v)) = [a, b]
                          \<and> py_int (strip a) = Some lo \<and> py_int (strip b) = Some hi \<and> hi < lo)"
proof -
  from assms have "normalize_str (strip (py_str v)) = Inr (d, Some lo, Some hi)"
    by (auto simp: normalize_qs_ranking_def Let_def split: if_splits)
  from normalize_str_bounds[OF this] show ?thesis by (cases "lo \<le> hi") auto
qed

theorem C3_bounds_order_witness:
  "normalize_qs_ranking (PStr ''250-201'') = Inr (Some ''250-201'', Some 250, Some 201)
   \<and> (\<exists>a b. split1 CHR ''-'' (strip (py_str (PStr ''250-201''))) = [a, b]
          \<and> py_int (strip a) = Some 250 \<and> py_int (strip b) = Some 201)"
proof -
  have h: "normalize_qs_ranking (PStr ''250-201'') = Inr (Some ''250-201'', Some 250, Some 201)"
    by code_simp
  from C3_bounds_order_amended[OF h] h show ?thesis by auto
qed

subsection \<open>The rank conventions of the two components\<close>













section \<open>Properties of the retrying HTTP client\<close>










lemma get_page_default: "get_page mr session None = get_page mr session (Some mr)"
  by (simp add: get_page_def)




section \<open>Properties of the reconciliation entry point\<close>

subsection \<open>Outcomes and failures\<close>







subsection \<open>The outcome of a failed write\<close>

text \<open>
  Claim C6, as stated, says that a failed patch write gives \<open>(existing_id, "skipped")\<close>. The
  return statement is \<open>(existing["id"] if ok else None, "enriched" if ok else "skipped")\<close>:
  when the write fails the id is \<open>None\<close>. With an endpoint that rejects the PATCH, a candidate
  that matches row \<open>"1"\<close> and stages \<open>location\<close> gets \<open>(None, "skipped")\<close>.
\<close>

theorem C6_counterexample:
  "staged_patch [(''name'', PStr ''Example University''), (''location'', PStr ''City X'')] True
       (None, None, None) (PDict [(''id'', PStr ''1''), (''name'', PStr ''Example University'')])
     = Inr ([(''location'', PStr ''City X'')], PDict [])
   \<and> fst (enrich_or_insert_unreviewed_school rejecting_client
          [(''name'', PStr ''Example University''), (''location'', PStr ''City X'')] True
          \<lparr>rows = [[(''id'', PStr ''1''), (''name'', PStr ''Example University'')]], next_id = 2\<rparr>)
     = (PNone, ''skipped'')
   \<and> (PNone, ''skipped'') \<noteq> (PStr ''1'', ''skipped'')"
  by code_simp

text \<open>
  Claim C6, amended: for every candidate that matches an existing entity and stages a
  non-empty field set, reconciliation returns \<open>(existing_id, "enriched")\<close> when the patch
  write succeeds and \<open>(None, "skipped")\<close>, without the id, when it fails.
\<close>

theorem C6_write_failure_amended:
  assumes "str_strip (py_or (dict_get data ''name'') (PStr [])) = Inr name"
    and "str_strip (py_or (dict_get data ''website_url'')
                      (py_or (dict_get data ''website'') (PStr []))) = Inr website_url"
    and "str_strip (py_or (dict_get data ''source_url'') (PStr [])) = Inr source_url"
    and "normalize_qs_ranking (dict_get data ''qs_ranking'') = Inr t"
    and "get_unreviewed_school_by_match c PNone (py_or (PStr website_url) PNone)
           (py_or (PStr name) PNone) s = (existing, s1)"
    and "truthy existing"
    and "staged_patch data foe t existing = Inr (patch, raw)"
    and "patch \<noteq> []"
    and "val_index existing ''id'' = Inr existing_id"
  shows "fst (enrich_or_insert_unreviewed_school c data foe s)
         = (if fst (patch_unreviewed_school c existing_id patch s1)
            then (existing_id, ''enriched'') else (PNone, ''skipped''))"
  using assms
  by (simp add: enrich_or_insert_unreviewed_school_def enrich_body_def enrich_existing_def
        Let_def split: prod.splits)

theorem C6_write_failure_witness:
  "fst (enrich_or_insert_unreviewed_school rejecting_client
          [(''name'', PStr ''Example University''), (''location'', PStr ''City X'')] True
          \<lparr>rows = [[(''id'', PStr ''1''), (''name'', PStr ''Example University'')]], next_id = 2\<rparr>)
     = (PNone, ''skipped'')
   \<and> fst (enrich_or_insert_unreviewed_school store_client
          [(''name'', PStr ''Example University''), (''location'', PStr ''City X'')] True
          \<lparr>rows = [[(''id'', PStr ''1''), (''name'', PStr ''Example University'')]], next_id = 2\<rparr>)
     = (PStr ''1'', ''enriched'')"
proof -
  let ?d = "[(''name'', PStr ''Example University''), (''location'', PStr ''City X'')]"
  let ?r = "[(''id'', PStr ''1''), (''name'', PStr ''Example University'')]"
  let ?s = "\<lparr>rows = [?r], next_id = 2\<rparr>"
  have n: "str_strip (py_or (dict_get ?d ''name'') (PStr [])) = Inr ''Example University''"
    by code_simp
  have w: "str_strip (py_or (dict_get ?d ''website_url'') (py_or (dict_get ?d ''website'') (PStr [])))
           = Inr []" by code_simp
  have u: "str_strip (py_or (dict_get ?d ''source_url'') (PStr [])) = Inr []" by code_simp
  have t: "normalize_qs_ranking (dict_get ?d ''qs_ranking'') = Inr (None, None, None)" by code_simp
  have g1: "get_unreviewed_school_by_match rejecting_client PNone (py_or (PStr []) PNone)
              (py_or (PStr ''Example University'') PNone) ?s = (PDict ?r, ?s)" by code_simp
  have g2: "get_unreviewed_school_by_match store_client PNone (py_or (PStr []) PNone)
              (py_or (PStr ''Example University'') PNone) ?s = (PDict ?r, ?s)" by code_simp
  have e: "truthy (PDict ?r)" by code_simp
  have p: "staged_patch ?d True (None, None, None) (PDict ?r)
           = Inr ([(''location'', PStr ''City X'')], PDict [])" by code_simp
  have ne: "[(''location'', PStr ''City X'')] \<noteq> []" by simp
  have i: "val_index (PDict ?r) ''id'' = Inr (PStr ''1'')" by code_simp
  have f1: "\<not> fst (patch_unreviewed_school rejecting_client (PStr ''1'')
                    [(''location'', PStr ''City X'')] ?s)" by code_simp
  have f2: "fst (patch_unreviewed_school store_client (PStr ''1'')
                    [(''location'', PStr ''City X'')] ?s)" by code_simp
  from C6_write_failure_amended[OF n w u t g1 e p ne i] f1
       C6_write_failure_amended[OF n w u t g2 e p ne i] f2
  show ?thesis by simp
qed

subsection \<open>Re-normalization in the patch path\<close>

text \<open>
  Claim C10 says that the normalizer is idempotent on its own display strings, and hence
  that the re-normalization in the patch path never changes the stored bounds. The first
  part holds (lemma \<open>normalize_idem\<close>). The patch path, however, re-normalizes the integer
  it is given in \<open>qs_ranking\<close>, which is the lower bound, not the display string, and writes
  the result over the rank keys of the merged \<open>raw_data\<close>. For the candidate rank
  \<open>"201-250"\<close> and a matching row without a rank, the entry point stages
  \<open>("201-250", 201, 250)\<close>, and the row ends with display \<open>"201"\<close> and upper bound \<open>201\<close>;
  the insert path stores \<open>("201-250", 201, 250)\<close> for the same candidate.
\<close>

theorem C10_patch_path_changes_bounds:
  "normalize_qs_ranking (PStr ''201-250'') = Inr (Some ''201-250'', Some 201, Some 250)
   \<and> staged_patch [(''name'', PStr ''Example University''), (''qs_ranking'', PStr ''201-250'')] True
       (Some ''201-250'', Some 201, Some 250)
       (PDict [(''id'', PStr ''1''), (''name'', PStr ''Example University'')])
     = Inr ([(''qs_ranking'', PInt 201),
             (''raw_data'', PDict [(''qs_ranking_display'', PStr ''201-250''),
                                   (''qs_rank_min'', PInt 201), (''qs_rank_max'', PInt 250)])],
            PDict [(''qs_ranking_display'', PStr ''201-250''),
                   (''qs_rank_min'', PInt 201), (''qs_rank_max'', PInt 250)])
   \<and> enrich_or_insert_unreviewed_school store_client
        [(''name'', PStr ''Example University''), (''qs_ranking'', PStr ''201-250'')] True
        \<lparr>rows = [[(''id'', PStr ''1''), (''name'', PStr ''Example University'')]], next_id = 2\<rparr>
     = ((PStr ''1'', ''enriched''),
        [(''name'', PStr ''Example University''), (''qs_ranking'', PStr ''201-250'')],
        \<lparr>rows = [[(''id'', PStr ''1''), (''name'', PStr ''Example University''),
                   (''qs_ranking'', PInt 201),
                   (''raw_data'', PDict [(''qs_ranking_display'', PStr ''201''),
                                         (''qs_rank_min'', PInt 201), (''qs_rank_max'', PInt 201)])]],
          next_id = 2\<rparr>)
   \<and> enrich_or_insert_unreviewed_school store_client
        [(''name'', PStr ''Example University''), (''qs_ranking'', PStr ''201-250'')] True
        \<lparr>rows = [], next_id = 1\<rparr>
     = ((PStr ''1'', ''inserted''),
        [(''name'', PStr ''Example University''), (''qs_ranking'', PStr ''201-250'')],
        \<lparr>rows = [[(''name'', PStr ''Example University''), (''qs_ranking'', PInt 201),
                   (''source_url'', PStr []), (''confidence_score'', PFloat ''0.0''),
                   (''raw_data'', PDict [(''qs_ranking_display'', PStr ''201-250''),
                                         (''qs_rank_min'', PInt 201), (''qs_rank_max'', PInt 250)]),
                   (''status'', PStr ''pending''), (''id'', PStr ''1'')]],
          next_id = 2\<rparr>)"
  by code_simp

subsection \<open>Dict operations\<close>

lemma map_of_dict_set: "map_of (dict_set d k v) = (map_of d)(k \<mapsto> v)"
  by (induction d k v rule: dict_set.induct) (auto simp: fun_eq_iff)

lemma dict_get_dict_set: "dict_get (dict_set d k v) k' = (if k' = k then v else dict_get d k')"
  by (simp add: dict_get_def map_of_dict_set)

lemma dict_has_dict_set: "dict_has (dict_set d k v) k' = (k' = k \<or> dict_has d k')"
  by (auto simp: dict_has_def map_of_dict_set)

lemma dict_has_iff: "dict_has d k \<longleftrightarrow> k \<in> fst ` set d"
  by (simp add: dict_has_def map_of_eq_None_iff)

lemma map_of_fold_dict_set:
  "k \<notin> fst ` set b \<Longrightarrow> map_of (fold (\<lambda>kv d. dict_set d (fst kv) (snd kv)) b a) k = map_of a k"
  by (induction b arbitrary: a) (auto simp: map_of_dict_set)

lemma dict_get_dict_merge_other: "\<not> dict_has b k \<Longrightarrow> dict_get (dict_merge a b) k = dict_get a k"
  by (simp add: dict_has_iff dict_get_def dict_merge_def map_of_fold_dict_set)

lemma dict_has_drop_none: "dict_has (drop_none d) k \<Longrightarrow> dict_has d k"
  by (auto simp: dict_has_iff drop_none_def)

lemma dict_has_dict_pop: "dict_has (dict_pop d k') k \<Longrightarrow> dict_has d k"
  by (auto simp: dict_has_iff dict_pop_def)

lemma dict_has_pop_drop: "dict_has (dict_pop (drop_none d) k') k \<Longrightarrow> dict_has d k"
  by (blast dest: dict_has_dict_pop dict_has_drop_none)

subsection \<open>What the existing branch stages\<close>

lemma stage_fill_keys:
  "stage_fill existing data fs p = Inr q \<Longrightarrow> dict_has q k \<Longrightarrow>
     dict_has p k \<or> (\<exists>old. val_get existing k = Inr old \<and> is_empty_value old)"
proof (induction fs arbitrary: p)
  case Nil
  then show ?case by simp
next
  case (Cons f fs)
  from Cons.prems(1) obtain old where o: "val_get existing f = Inr old"
    by (cases "val_get existing f") (auto simp: bind_exc_def)
  let ?p = "if is_empty_value old \<and> \<not> is_empty_value (dict_get data f)
            then dict_set p f (dict_get data f) else p"
  from Cons.prems(1) o have "stage_fill existing data fs ?p = Inr q"
    by (simp add: bind_exc_def Let_def)
  from Cons.IH[OF this Cons.prems(2)] o show ?case
    by (auto simp: dict_has_dict_set split: if_splits)
qed

lemma stage_rank_keys:
  "stage_rank True existing rmin p = Inr q \<Longrightarrow> dict_has q k \<Longrightarrow>
     dict_has p k \<or> (\<exists>old. val_get existing k = Inr old \<and> is_empty_value old)"
  by (auto simp: stage_rank_def bind_exc_def dict_has_dict_set split: option.splits sum.splits if_splits)

lemma staged_patch_keys:
  assumes "staged_patch data True t existing = Inr (patch, raw)" "dict_has patch k"
  shows "k = ''raw_data'' \<or> (\<exists>old. val_get existing k = Inr old \<and> is_empty_value old)"
proof -
  from assms(1) obtain p0 p1 where
    p0: "stage_fill existing data candidate_fields [] = Inr p0" and
    p1: "stage_rank True existing (fst (snd t)) p0 = Inr p1" and
    pt: "patch = (if truthy raw then dict_set p1 ''raw_data'' raw else p1)"
    by (auto simp: staged_patch_def bind_exc_def split: sum.splits)
  from pt assms(2) have "k = ''raw_data'' \<or> dict_has p1 k"
    by (auto simp: dict_has_dict_set split: if_splits)
  moreover have "\<not> dict_has [] k" by (simp add: dict_has_def)
  ultimately show ?thesis using stage_rank_keys[OF p1, of k] stage_fill_keys[OF p0, of k] by blast
qed

lemma patch_payload_keys:
  "patch_payload cur upd = Inr payload \<Longrightarrow> dict_has payload k \<Longrightarrow> k = ''raw_data'' \<or> dict_has upd k"
  by (auto simp: patch_payload_def Let_def bind_exc_def dict_has_dict_set
           split: sum.splits if_splits option.splits prod.splits
           dest: dict_has_drop_none dict_has_pop_drop)

subsection \<open>The calls on the record store\<close>

lemma lookup_step_store:
  "lookup_step store_client q st = (Inr (map_option PDict (find (matches q) (rows st))), st)"
  by (cases "find (matches q) (rows st)")
     (simp_all add: lookup_step_def store_client_def store_get_def ok_response_def val_first_def)

lemma lookup_if_store:
  "lookup_if store_client key mk st
   = (Inr (if truthy key then map_option PDict (find (matches (mk (py_str key))) (rows st)) else None), st)"
  by (simp add: lookup_if_def lookup_step_store)

lemma lookup_by_id_store:
  "get_unreviewed_school_by_match store_client sid PNone PNone st
   = (if truthy sid
      then (case find (matches (IdEq (py_str sid))) (rows st) of None \<Rightarrow> PNone | Some r \<Rightarrow> PDict r)
      else PNone, st)"
  by (simp add: get_unreviewed_school_by_match_def lookup_if_store split: option.splits)

lemma lookup_store:
  "get_unreviewed_school_by_match store_client PNone wq nq st = (x, st')
   \<Longrightarrow> st' = st \<and> (x = PNone \<or> (\<exists>r\<in>set (rows st). x = PDict r))"
  by (auto simp: get_unreviewed_school_by_match_def lookup_if_store find_Some_iff
           split: option.splits if_splits)

lemma store_client_calls:
  "http_get store_client = store_get" "http_post store_client = store_post"
  "http_patch store_client = store_patch"
  by (simp_all add: store_client_def)

lemma patch_store:
  "patch_unreviewed_school store_client eid patch st = (ok, st') \<Longrightarrow>
     st' = st \<or> (\<exists>cur payload. find (matches (IdEq (py_str eid))) (rows st) = Some cur
                   \<and> patch_payload (PDict cur) patch = Inr payload
                   \<and> st' = st\<lparr>rows := map (\<lambda>row. if matches (IdEq (py_str eid)) row
                                             then dict_merge row payload else row) (rows st)\<rparr>)"
  by (auto simp: patch_unreviewed_school_def lookup_by_id_store store_client_calls store_patch_def Let_def
           split: if_splits option.splits sum.splits)

lemma unique_ids_same:
  assumes "unique_ids st" "r \<in> set (rows st)" "r' \<in> set (rows st)"
    "matches (IdEq t) r" "matches (IdEq t) r'"
  shows "r = r'"
proof -
  let ?f = "\<lambda>r. py_str (dict_get r ''id'')"
  let ?xs = "filter (\<lambda>r. dict_has r ''id'') (rows st)"
  from assms(1) have "inj_on ?f (set ?xs)"
    by (simp add: unique_ids_def row_ids_def distinct_map)
  moreover from assms have "r \<in> set ?xs" "r' \<in> set ?xs" "?f r = ?f r'" by auto
  ultimately show ?thesis by (auto dest: inj_onD)
qed

lemma preserved_refl: "preserved st st"
  by (simp add: preserved_def)

subsection \<open>The fill-only-empty discipline on the record store\<close>

lemma store_patch_preserved:
  assumes u: "unique_ids st" and r: "r \<in> set (rows st)" and m: "matches (IdEq idt) r"
    and keys: "\<And>k. dict_has payload k \<Longrightarrow> k = ''raw_data'' \<or> is_empty_value (dict_get r k)"
  shows "preserved st (st\<lparr>rows := map (\<lambda>row. if matches (IdEq idt) row
                                         then dict_merge row payload else row) (rows st)\<rparr>)"
proof -
  have "dict_get (if matches (IdEq idt) (rows st ! i) then dict_merge (rows st ! i) payload
                  else rows st ! i) f = dict_get (rows st ! i) f"
    if i: "i < length (rows st)" and f: "f \<noteq> ''raw_data''"
      and ne: "\<not> is_empty_value (dict_get (rows st ! i) f)" for i f
  proof (cases "matches (IdEq idt) (rows st ! i)")
    case True
    from i have "rows st ! i \<in> set (rows st)" by simp
    from unique_ids_same[OF u this r True m] have eq: "rows st ! i = r" .
    with keys[of f] f ne have nh: "\<not> dict_has payload f" by auto
    show ?thesis by (simp only: True if_True dict_get_dict_merge_other[OF nh])
  next
    case False
    show ?thesis by (simp only: False if_False)
  qed
  then show ?thesis by (simp add: preserved_def)
qed

lemma enrich_existing_preserved:
  assumes u: "unique_ids st" and r: "r \<in> set (rows st)"
  shows "preserved st (snd (snd (enrich_existing store_client data True t (PDict r) st)))"
proof (cases "staged_patch data True t (PDict r)")
  case (Inl e)
  then show ?thesis by (simp add: enrich_existing_def preserved_refl)
next
  case (Inr pr)
  obtain patch raw where pr: "pr = (patch, raw)" by (cases pr)
  note sp = Inr[unfolded pr]
  show ?thesis
  proof (cases "val_index (PDict r) ''id''")
    case (Inl e)
    with sp show ?thesis by (simp add: enrich_existing_def preserved_refl)
  next
    case (Inr eid)
    then have m: "matches (IdEq (py_str eid)) r"
      by (auto simp: val_index_def dict_has_def dict_get_def split: option.splits)
    obtain ok st' where p: "patch_unreviewed_school store_client eid patch st = (ok, st')"
      by (cases "patch_unreviewed_school store_client eid patch st")
    have "preserved st st'"
    proof -
      from patch_store[OF p] consider "st' = st"
        | cur payload where "find (matches (IdEq (py_str eid))) (rows st) = Some cur"
            "patch_payload (PDict cur) patch = Inr payload"
            "st' = st\<lparr>rows := map (\<lambda>row. if matches (IdEq (py_str eid)) row
                                       then dict_merge row payload else row) (rows st)\<rparr>"
        by blast
      then show ?thesis
      proof cases
        case 1
        then show ?thesis by (simp add: preserved_refl)
      next
        case 2
        have "k = ''raw_data'' \<or> is_empty_value (dict_get r k)" if "dict_has payload k" for k
        proof -
          from patch_payload_keys[OF 2(2) that] staged_patch_keys[OF sp, of k]
          show ?thesis by (auto simp: val_get_def)
        qed
        from store_patch_preserved[OF u r m this] 2(3) show ?thesis by simp
      qed
    qed
    with sp Inr p show ?thesis by (simp add: enrich_existing_def Let_def preserved_refl)
  qed
qed

lemma insert_new_preserved:
  "preserved st (snd (snd (insert_new store_client data t n w src st)))"
  by (auto simp: insert_new_def Let_def store_client_calls store_post_def preserved_def nth_append
           split: sum.splits prod.splits)

lemma enrich_body_preserved:
  assumes u: "unique_ids st"
  shows "preserved st (snd (snd (enrich_body store_client data True st)))"
proof -
  have br: "preserved st (snd (snd (
              case get_unreviewed_school_by_match store_client PNone wq nq st of
                (existing, s1) \<Rightarrow>
                  if truthy existing then enrich_existing store_client data True t existing s1
                  else insert_new store_client data t n w src s1)))" for wq nq t n w src
  proof -
    obtain x s1 where g: "get_unreviewed_school_by_match store_client PNone wq nq st = (x, s1)"
      by (cases "get_unreviewed_school_by_match store_client PNone wq nq st")
    from lookup_store[OF g] have s1: "s1 = st" and x: "x = PNone \<or> (\<exists>r\<in>set (rows st). x = PDict r)"
      by auto
    show ?thesis
    proof (cases "truthy x")
      case True
      with x obtain r where "r \<in> set (rows st)" "x = PDict r" by auto
      with g s1 True enrich_existing_preserved[OF u, of r data t] show ?thesis by simp
    next
      case False
      with g s1 insert_new_preserved[of st data t n w src] show ?thesis by simp
    qed
  qed
  show ?thesis
    unfolding enrich_body_def
    by (simp add: preserved_refl br split: sum.splits)
qed

lemma enrich_or_insert_preserved:
  "unique_ids st
   \<Longrightarrow> preserved st (snd (snd (enrich_or_insert_unreviewed_school store_client data True st)))"
  using enrich_body_preserved[of st data]
  by (auto simp: enrich_or_insert_unreviewed_school_def split: prod.splits sum.splits)

lemma strip_empty_iff: "strip s = [] \<longleftrightarrow> list_all is_space s"
proof
  assume "strip s = []"
  then have a: "\<forall>x\<in>set (dropWhile is_space s). is_space x"
    by (simp add: strip_def strip_by_def dropWhile_eq_Nil_conv)
  have "dropWhile is_space s = []"
  proof (rule ccontr)
    assume n: "dropWhile is_space s \<noteq> []"
    then have "\<not> is_space (hd (dropWhile is_space s))" by (rule hd_dropWhile)
    moreover from n have "hd (dropWhile is_space s) \<in> set (dropWhile is_space s)" by simp
    ultimately show False using a by blast
  qed
  then show "list_all is_space s" by (simp add: dropWhile_eq_Nil_conv list_all_iff)
next
  assume "list_all is_space s"
  then have d: "dropWhile is_space s = []" by (simp add: dropWhile_eq_Nil_conv list_all_iff)
  show "strip s = []" unfolding strip_def strip_by_def d by simp
qed

lemma is_empty_value_iff:
  "is_empty_value v \<longleftrightarrow> v = PNone \<or> (\<exists>s. v = PStr s \<and> list_all is_space s)"
  by (cases v) (simp_all add: is_empty_value_def strip_empty_iff)

text \<open>
  Claim C2: with \<open>fill_only_empty\<close> true, reconciling any candidate leaves every stored
  non-empty value of a scalar field (\<open>country\<close>, \<open>location\<close>, \<open>year_founded\<close>, \<open>website_url\<close>,
  \<open>initial\<close>, \<open>type\<close>, \<open>confidence_score\<close>, \<open>source_url\<close>, \<open>qs_ranking\<close>) as it was: only
  fields that are empty in the existing row may be written. The store is the record store
  above, with the id a key of the table.
\<close>

theorem C2_fill_only_empty:
  assumes "unique_ids st" and "i < length (rows st)" and "f \<in> set scalar_fields"
    and "\<not> is_empty_value (dict_get (rows st ! i) f)"
  shows "i < length (rows (snd (snd (enrich_or_insert_unreviewed_school store_client data True st))))
       \<and> dict_get (rows (snd (snd (enrich_or_insert_unreviewed_school store_client data True st))) ! i) f
         = dict_get (rows st ! i) f"
proof -
  from assms(3) have "f \<noteq> ''raw_data''" by (auto simp: scalar_fields_def)
  with enrich_or_insert_preserved[OF assms(1), of data] assms(2,4) show ?thesis
    by (auto simp: preserved_def)
qed

theorem C2_fill_only_empty_witness:
  "enrich_or_insert_unreviewed_school store_client
     [(''name'', PStr ''Example University''), (''location'', PStr ''City X''),
      (''country'', PStr ''Y'')] True
     \<lparr>rows = [[(''id'', PStr ''1''), (''name'', PStr ''Example University''),
               (''location'', PStr ''Old Town'')]], next_id = 2\<rparr>
   = ((PStr ''1'', ''enriched''),
      [(''name'', PStr ''Example University''), (''location'', PStr ''City X''),
       (''country'', PStr ''Y'')],
      \<lparr>rows = [[(''id'', PStr ''1''), (''name'', PStr ''Example University''),
                (''location'', PStr ''Old Town''), (''country'', PStr ''Y'')]], next_id = 2\<rparr>)
   \<and> dict_get (rows (snd (snd (enrich_or_insert_unreviewed_school store_client
        [(''name'', PStr ''Example University''), (''location'', PStr ''City X''),
         (''country'', PStr ''Y'')] True
        \<lparr>rows = [[(''id'', PStr ''1''), (''name'', PStr ''Example University''),
                  (''location'', PStr ''Old Town'')]], next_id = 2\<rparr>))) ! 0) ''location''
     = PStr ''Old Town''"
proof -
  let ?st = "\<lparr>rows = [[(''id'', PStr ''1''), (''name'', PStr ''Example University''),
                       (''location'', PStr ''Old Town'')]], next_id = 2\<rparr>"
  have u: "unique_ids ?st" by code_simp
  have i: "0 < length (rows ?st)" by simp
  have f: "''location'' \<in> set scalar_fields" by code_simp
  have v: "dict_get (rows ?st ! 0) ''location'' = PStr ''Old Town''" by code_simp
  have ne: "\<not> is_empty_value (dict_get (rows ?st ! 0) ''location'')" by code_simp
  have run: "enrich_or_insert_unreviewed_school store_client
     [(''name'', PStr ''Example University''), (''location'', PStr ''City X''),
      (''country'', PStr ''Y'')] True ?st
   = ((PStr ''1'', ''enriched''),
      [(''name'', PStr ''Example University''), (''location'', PStr ''City X''),
       (''country'', PStr ''Y'')],
      \<lparr>rows = [[(''id'', PStr ''1''), (''name'', PStr ''Example University''),
                (''location'', PStr ''Old Town''), (''country'', PStr ''Y'')]], next_id = 2\<rparr>)"
    by code_simp
  from C2_fill_only_empty[OF u i f ne,
      of "[(''name'', PStr ''Example University''), (''location'', PStr ''City X''),
           (''country'', PStr ''Y'')]"] v run
  show ?thesis by simp
qed

text \<open>
  Claim C8: the emptiness test of the fill policy holds exactly for \<open>None\<close> and for strings
  of whitespace only; \<open>0\<close>, \<open>0.0\<close>, \<open>False\<close> and the empty collections are not empty, so a
  stored \<open>0\<close> or \<open>0.0\<close> in a scalar field is never overwritten when \<open>fill_only_empty\<close> is
  true.
\<close>

theorem C8_empty_definition:
  "(is_empty_value v \<longleftrightarrow> v = PNone \<or> (\<exists>s. v = PStr s \<and> list_all is_space s))
   \<and> \<not> is_empty_value (PInt 0) \<and> \<not> is_empty_value (PFloat ''0.0'')
   \<and> \<not> is_empty_value (PBool False) \<and> \<not> is_empty_value (PList []) \<and> \<not> is_empty_value (PDict [])
   \<and> (unique_ids st \<and> i < length (rows st) \<and> f \<in> set scalar_fields
        \<and> (dict_get (rows st ! i) f = PInt 0 \<or> dict_get (rows st ! i) f = PFloat ''0.0'')
      \<longrightarrow> dict_get (rows (snd (snd (enrich_or_insert_unreviewed_school store_client data True st))) ! i) f
          = dict_get (rows st ! i) f)"
proof -
  have "dict_get (rows (snd (snd (enrich_or_insert_unreviewed_school store_client data True st))) ! i) f
          = dict_get (rows st ! i) f"
    if u: "unique_ids st" and i: "i < length (rows st)" and f: "f \<in> set scalar_fields"
      and z: "dict_get (rows st ! i) f = PInt 0 \<or> dict_get (rows st ! i) f = PFloat ''0.0''"
  proof -
    from f have "f \<noteq> ''raw_data''" by (auto simp: scalar_fields_def)
    moreover from z have "\<not> is_empty_value (dict_get (rows st ! i) f)"
      by (auto simp: is_empty_value_def)
    ultimately show ?thesis using enrich_or_insert_preserved[OF u, of data] i
      by (auto simp: preserved_def)
  qed
  then show ?thesis using is_empty_value_iff[of v] by (simp add: is_empty_value_def)
qed

theorem C8_empty_definition_witness:
  "dict_get (rows (snd (snd (enrich_or_insert_unreviewed_school store_client
        [(''name'', PStr ''Example University''), (''confidence_score'', PFloat ''0.95'')] True
        \<lparr>rows = [[(''id'', PStr ''1''), (''name'', PStr ''Example University''),
                  (''confidence_score'', PFloat ''0.0'')]], next_id = 2\<rparr>))) ! 0) ''confidence_score''
     = PFloat ''0.0''
   \<and> is_empty_value (PStr '' '') \<and> is_empty_value PNone"
proof -
  let ?st = "\<lparr>rows = [[(''id'', PStr ''1''), (''name'', PStr ''Example University''),
                       (''confidence_score'', PFloat ''0.0'')]], next_id = 2\<rparr>"
  have u: "unique_ids ?st" by code_simp
  have i: "0 < length (rows ?st)" by simp
  have f: "''confidence_score'' \<in> set scalar_fields" by code_simp
  have v: "dict_get (rows ?st ! 0) ''confidence_score'' = PFloat ''0.0''" by code_simp
  have s: "list_all is_space '' ''" by code_simp
  from C8_empty_definition[of "PStr '' ''" ?st 0 "''confidence_score''"
      "[(''name'', PStr ''Example University''), (''confidence_score'', PFloat ''0.95'')]"]
    C8_empty_definition[of PNone ?st 0 "''confidence_score''"
      "[(''name'', PStr ''Example University''), (''confidence_score'', PFloat ''0.95'')]"]
    u i f v s
  show ?thesis by simp
qed

subsection \<open>Reconciling the same candidate twice\<close>

lemma dict_set_same: "map_of d k = Some v \<Longrightarrow> dict_set d k v = d"
  by (induction d k v rule: dict_set.induct) (auto split: if_splits)

lemma map_fst_dict_set:
  "map fst (dict_set d k v) = (if k \<in> fst ` set d then map fst d else map fst d @ [k])"
  by (induction d k v rule: dict_set.induct) auto

lemma distinct_dict_set: "distinct (map fst d) \<Longrightarrow> distinct (map fst (dict_set d k v))"
  by (simp add: map_fst_dict_set)

lemma fold_dict_set_same:
  "distinct (map fst a) \<Longrightarrow> set b \<subseteq> set a
   \<Longrightarrow> fold (\<lambda>kv d. dict_set d (fst kv) (snd kv)) b a = a"
proof (induction b)
  case Nil
  then show ?case by simp
next
  case (Cons kv b)
  from Cons.prems have "map_of a (fst kv) = Some (snd kv)" by (cases kv) simp
  then have "dict_set a (fst kv) (snd kv) = a" by (rule dict_set_same)
  with Cons show ?case by simp
qed

lemma dict_merge_self: "distinct (map fst d) \<Longrightarrow> dict_merge d d = d"
  by (simp add: dict_merge_def fold_dict_set_same)

lemma dict_get_drop_none: "distinct (map fst d) \<Longrightarrow> dict_get (drop_none d) k = dict_get d k"
proof (induction d)
  case Nil
  then show ?case by (simp add: drop_none_def)
next
  case (Cons kv d)
  obtain k' v' where kv: "kv = (k', v')" by (cases kv)
  from Cons.prems kv have nk: "k' \<notin> fst ` set d" by auto
  then have "map_of d k' = None" by (simp add: map_of_eq_None_iff)
  moreover from Cons have "dict_get (drop_none d) k = dict_get d k" by simp
  ultimately show ?case using kv
    by (auto simp: drop_none_def dict_get_def)
qed

lemma lookup_entry_store:
  "get_unreviewed_school_by_match store_client PNone (py_or (PStr w) PNone) (py_or (PStr n) PNone) st
   = (case (if w \<noteq> [] then find (matches (WebsiteIlike w)) (rows st) else None) of
        Some r \<Rightarrow> PDict r
      | None \<Rightarrow> (case (if n \<noteq> [] then find (matches (NameIlike n)) (rows st) else None) of
                   Some r \<Rightarrow> PDict r | None \<Rightarrow> PNone), st)"
  by (simp add: get_unreviewed_school_by_match_def lookup_if_store py_or_def py_str_def
           split: option.splits)

lemma find_append_last:
  "find P (xs @ [y]) = (case find P xs of Some r \<Rightarrow> Some r | None \<Rightarrow> if P y then Some y else None)"
  by (induction xs) auto

lemma contains_self: "contains s s"
  by (cases s) simp_all

lemma set_rank_keys_dict:
  "\<exists>d1. set_rank_keys (PDict d) (disp, rmin, rmax) = Inr (PDict d1)
        \<and> set_rank_keys (PDict d1) (disp, rmin, rmax) = Inr (PDict d1)
        \<and> (distinct (map fst d) \<longrightarrow> distinct (map fst d1))
        \<and> (d1 = [] \<longleftrightarrow> d = [] \<and> disp = None \<and> rmin = None \<and> rmax = None)"
proof -
  have ne: "dict_set x k v \<noteq> []" for x k v
    by (induction x k v rule: dict_set.induct) auto
  show ?thesis
    by (cases disp; cases rmin; cases rmax)
       (simp_all add: set_rank_keys_def bind_exc_def val_setitem_def map_of_dict_set
          dict_set_same distinct_dict_set ne)
qed

lemma payload0_keys:
  "distinct (map fst (insert_payload0 data t n w src))"
  by (simp add: insert_payload0_def)

lemma payload0_get:
  "dict_get (insert_payload0 data t n w src) ''raw_data'' = dict_get_default data ''raw_data'' (PDict [])"
  "dict_get (insert_payload0 data t n w src) ''name'' = PStr n"
  "dict_get (insert_payload0 data t n w src) ''year_founded'' = dict_get data ''year_founded''"
  "dict_get (insert_payload0 data t n w src) ''country'' = dict_get data ''country''"
  "dict_get (insert_payload0 data t n w src) ''location'' = dict_get data ''location''"
  "dict_get (insert_payload0 data t n w src) ''initial'' = dict_get data ''initial''"
  "dict_get (insert_payload0 data t n w src) ''type'' = dict_get data ''type''"
  "dict_get (insert_payload0 data t n w src) ''website_url'' = py_or (PStr w) (dict_get data ''website'')"
  "dict_get (insert_payload0 data t n w src) ''source_url'' = PStr src"
  "dict_get (insert_payload0 data t n w src) ''confidence_score''
     = dict_get_default data ''confidence_score'' (PFloat ''0.0'')"
  "dict_get (insert_payload0 data t n w src) ''qs_ranking'' = opt_int (fst (snd t))"
  by (simp_all add: insert_payload0_def dict_get_def)

lemma inserted_row_get:
  "dict_get (inserted_row data t n w src raw k) f
   = (if f = ''id'' then PStr (str_nat k) else if f = ''raw_data'' then raw
      else dict_get (insert_payload0 data t n w src) f)"
proof -
  have "distinct (map fst (dict_set (insert_payload0 data t n w src) ''raw_data'' raw))"
    by (rule distinct_dict_set) (rule payload0_keys)
  then show ?thesis
    by (simp add: inserted_row_def dict_get_dict_set dict_get_drop_none)
qed

lemma dict_set_nonempty: "dict_set d k v \<noteq> []"
  by (induction d k v rule: dict_set.induct) auto

lemma inserted_row_nonempty: "inserted_row data t n w src raw k \<noteq> []"
  by (simp add: inserted_row_def dict_set_nonempty)

lemma inserted_row_has_id: "dict_has (inserted_row data t n w src raw k) ''id''"
  by (simp add: inserted_row_def dict_has_dict_set)

lemma store_post_row:
  "http_post store_client payload st
   = (Inr (ok_response 201 [dict_set payload ''id'' (PStr (str_nat (next_id st)))]),
      st\<lparr>rows := rows st @ [dict_set payload ''id'' (PStr (str_nat (next_id st)))],
         next_id := Suc (next_id st)\<rparr>)"
  by (simp add: store_client_calls store_post_def Let_def)

lemma inserted_id_row:
  "inserted_id (ok_response 201 [dict_set payload ''id'' v]) = Inr v"
  by (simp add: inserted_id_def ok_response_def json_or_none_def is_list_def py_or_def
        val_first_def val_get_def dict_get_dict_set bind_exc_def Let_def)

lemma insert_new_store:
  assumes "set_rank_keys (py_or (dict_get_default data ''raw_data'' (PDict [])) (PDict [])) t = Inr raw"
  shows "insert_new store_client data t n w src st
         = (Inr (PStr (str_nat (next_id st)), ''inserted''), write_back data raw,
            st\<lparr>rows := rows st @ [inserted_row data t n w src raw (next_id st)],
               next_id := Suc (next_id st)\<rparr>)"
proof -
  have r: "set_rank_keys (py_or (dict_get (insert_payload0 data t n w src) ''raw_data'') (PDict [])) t
           = Inr raw"
    using assms by (simp only: payload0_get(1))
  have sc: "status_code (ok_response 201 rs) = 201" for rs by (simp add: ok_response_def)
  show ?thesis
    unfolding insert_new_def Let_def r store_post_row
    by (simp add: sc inserted_id_row inserted_row_def)
qed

lemma stage_fill_nothing:
  assumes "\<And>f. f \<in> set fs \<Longrightarrow> is_empty_value (dict_get r f) \<Longrightarrow> is_empty_value (dict_get data f)"
  shows "stage_fill (PDict r) data fs p = Inr p"
  using assms
  by (induction fs arbitrary: p) (auto simp: bind_exc_def val_get_def Let_def)

lemma strip_strip: "strip (strip s) = strip s"
  by (simp add: strip_def strip_by_idem)

lemma stripped_url_empty:
  assumes "str_or_none u" and "str_strip (py_or u alt) = Inr x"
    and "is_empty_value (py_or (PStr x) other) \<or> is_empty_value (PStr x)"
  shows "is_empty_value u"
proof (cases u)
  case PNone
  then show ?thesis by (simp add: is_empty_value_def)
next
  case (PStr s)
  show ?thesis
  proof (cases "s = []")
    case True
    with PStr show ?thesis by (simp add: is_empty_value_def strip_empty)
  next
    case False
    with PStr assms(2) have x: "x = strip s" by (simp add: py_or_def str_strip_def)
    show ?thesis
    proof (cases "x = []")
      case True
      with x PStr show ?thesis by (simp add: is_empty_value_def)
    next
      case False
      with x have "\<not> is_empty_value (PStr x)" "py_or (PStr x) other = PStr x"
        by (simp_all add: is_empty_value_def strip_strip py_or_def)
      with assms(3) show ?thesis by simp
    qed
  qed
qed (use assms(1) in \<open>simp_all add: str_or_none_def\<close>)

lemma fresh_counter_no_match:
  assumes f: "fresh_counter st" and r: "r \<in> set (rows st)"
  shows "\<not> matches (IdEq (str_nat (next_id st))) r"
proof
  assume m: "matches (IdEq (str_nat (next_id st))) r"
  from r m have "str_nat (next_id st) \<in> set (row_ids st)" by (force simp: row_ids_def)
  with f show False by (simp add: fresh_counter_def)
qed

lemma patch_raw_same:
  assumes rows: "rows st1 = rs @ [row]"
    and raw: "map_of row ''raw_data'' = Some (PDict d1)"
    and ident: "dict_has row ''id''" "dict_get row ''id'' = PStr idn" "idn \<noteq> []"
    and d1: "d1 \<noteq> []" "distinct (map fst d1)"
    and fresh: "\<And>r. r \<in> set rs \<Longrightarrow> \<not> matches (IdEq idn) r"
  shows "patch_unreviewed_school store_client (PStr idn) [(''raw_data'', PDict d1)] st1 = (True, st1)"
proof -
  have m: "matches (IdEq idn) row" using ident by (simp add: py_str_def)
  have "find (matches (IdEq idn)) rs = None" using fresh by (auto simp: find_None_iff)
  with m rows have f: "find (matches (IdEq idn)) (rows st1) = Some row"
    by (simp only: find_append_last option.case if_True)
  have cur: "get_unreviewed_school_by_match store_client (PStr idn) PNone PNone st1 = (PDict row, st1)"
    using ident(3) f by (simp add: lookup_by_id_store py_str_def)
  have pp: "patch_payload (PDict row) [(''raw_data'', PDict d1)] = Inr [(''raw_data'', PDict d1)]"
    using raw d1
    by (simp add: patch_payload_def drop_none_def dict_has_def dict_get_def val_get_def py_or_def
          is_dict_def val_merge_def dict_merge_self bind_exc_def Let_def)
  have "dict_merge row [(''raw_data'', PDict d1)] = row"
    using raw by (simp add: dict_merge_def dict_set_same)
  then have upd: "map (\<lambda>r. if matches (IdEq idn) r then dict_merge r [(''raw_data'', PDict d1)] else r)
                   (rows st1) = rows st1"
    using fresh rows by (intro map_idI) (auto simp only: set_append set_simps split: if_splits)
  have sp: "store_patch idn [(''raw_data'', PDict d1)] st1
            = (Inr (ok_response 200 (map (\<lambda>r. if matches (IdEq idn) r
                       then dict_merge r [(''raw_data'', PDict d1)] else r)
                     (filter (matches (IdEq idn)) (rows st1)))), st1)"
    unfolding store_patch_def Let_def upd by simp
  show ?thesis
    unfolding patch_unreviewed_school_def cur
    by (simp add: pp store_client_calls sp py_str_def ok_response_def del: matches.simps)
qed

lemma default_not_empty:
  "is_empty_value (dict_get_default data k (PFloat x)) \<Longrightarrow> is_empty_value (dict_get data k)"
  by (auto simp: dict_get_default_def dict_get_def is_empty_value_def split: option.splits)

lemma second_stage:
  assumes wt: "well_typed data"
    and w: "str_strip (py_or (dict_get data ''website_url'')
                        (py_or (dict_get data ''website'') (PStr []))) = Inr w"
    and src: "str_strip (py_or (dict_get data ''source_url'') (PStr [])) = Inr src"
    and same: "\<And>f. f \<noteq> ''raw_data'' \<Longrightarrow> dict_get d2 f = dict_get data f"
    and raw2: "set_rank_keys (py_or (dict_get d2 ''raw_data'') (PDict [])) (disp, rmin, rmax) = Inr raw"
  shows "staged_patch d2 True (disp, rmin, rmax)
           (PDict (inserted_row data (disp, rmin, rmax) n w src raw1 k))
         = Inr (if truthy raw then [(''raw_data'', raw)] else [], raw)"
proof -
  let ?row = "inserted_row data (disp, rmin, rmax) n w src raw1 k"
  from wt have su: "str_or_none (dict_get data ''website_url'')"
    and ss: "str_or_none (dict_get data ''source_url'')" by (simp_all add: well_typed_def)
  let ?P = "\<lambda>f. is_empty_value (dict_get ?row f) \<longrightarrow> is_empty_value (dict_get d2 f)"
  have p1: "?P ''year_founded''" using same[of "''year_founded''"]
    by (simp add: inserted_row_get payload0_get)
  have p2: "?P ''country''" using same[of "''country''"]
    by (simp add: inserted_row_get payload0_get)
  have p3: "?P ''location''" using same[of "''location''"]
    by (simp add: inserted_row_get payload0_get)
  have p4: "?P ''website_url''"
    using same[of "''website_url''"] stripped_url_empty[OF su w, of "dict_get data ''website''"]
    by (simp add: inserted_row_get payload0_get)
  have p5: "?P ''initial''" using same[of "''initial''"]
    by (simp add: inserted_row_get payload0_get)
  have p6: "?P ''type''" using same[of "''type''"]
    by (simp add: inserted_row_get payload0_get)
  have p7: "?P ''confidence_score''" using same[of "''confidence_score''"]
    by (simp add: inserted_row_get payload0_get default_not_empty)
  have p8: "?P ''source_url''"
    using same[of "''source_url''"] stripped_url_empty[OF ss src, of undefined]
    by (simp add: inserted_row_get payload0_get)
  have "list_all ?P candidate_fields"
    unfolding candidate_fields_def using p1 p2 p3 p4 p5 p6 p7 p8 by simp
  then have sf: "stage_fill (PDict ?row) d2 candidate_fields [] = Inr []"
    by (intro stage_fill_nothing) (simp add: list_all_iff)
  have sr: "stage_rank True (PDict ?row) rmin [] = Inr []"
    by (cases rmin)
       (simp_all add: stage_rank_def bind_exc_def val_get_def inserted_row_get payload0_get
          opt_int_def is_empty_value_def)
  show ?thesis
    by (simp add: staged_patch_def sf sr raw2 bind_exc_def)
qed

lemma normalize_display_none:
  "normalize_qs_ranking v = Inr (None, lo, hi) \<Longrightarrow> lo = None \<and> hi = None"
  by (auto simp: normalize_qs_ranking_def normalize_str_def Let_def
           split: if_splits option.splits list.splits)

lemma candidate_raw:
  assumes "dict_or_none (dict_get data ''raw_data'')"
  shows "\<exists>d0. py_or (dict_get_default data ''raw_data'' (PDict [])) (PDict []) = PDict d0
             \<and> py_or (dict_get data ''raw_data'') (PDict []) = PDict d0
             \<and> distinct (map fst d0) \<and> (d0 = [] \<longleftrightarrow> \<not> truthy (dict_get data ''raw_data''))"
proof (cases "map_of data ''raw_data''")
  case None
  then show ?thesis by (simp add: dict_get_def dict_get_default_def py_or_def)
next
  case (Some v)
  with assms show ?thesis
    by (cases v) (auto simp: dict_get_def dict_get_default_def py_or_def dict_or_none_def)
qed

lemma dict_get_Some: "dict_get d k = PDict x \<Longrightarrow> map_of d k = Some (PDict x)"
  by (auto simp: dict_get_def split: option.splits)

text \<open>
  Claim C1, as stated, says that reconciling the same candidate twice gives \<open>"inserted"\<close> and
  then \<open>"skipped"\<close>. The existing branch stages \<open>raw_data\<close> whenever \<open>raw\<close> is non-empty
  (\<open>if raw: patch["raw_data"] = raw\<close>), and \<open>raw\<close> holds the rank keys as soon as the candidate
  has a rank. A candidate with a name and the rank 5 is inserted by the first call and
  \<open>"enriched"\<close> by the second.
\<close>

theorem C1_counterexample:
  "fst (enrich_or_insert_unreviewed_school store_client
          [(''name'', PStr ''Example University''), (''qs_ranking'', PInt 5)] True
          \<lparr>rows = [], next_id = 1\<rparr>) = (PStr ''1'', ''inserted'')
   \<and> fst (enrich_or_insert_unreviewed_school store_client
          [(''name'', PStr ''Example University''), (''qs_ranking'', PInt 5)] True
          (snd (snd (enrich_or_insert_unreviewed_school store_client
             [(''name'', PStr ''Example University''), (''qs_ranking'', PInt 5)] True
             \<lparr>rows = [], next_id = 1\<rparr>)))) = (PStr ''1'', ''enriched'')
   \<and> (PStr ''1'', ''enriched'') \<noteq> (PStr ''1'', ''skipped'')"
  by code_simp

text \<open>
  Claim C1, amended. Take a candidate with a non-blank name or website, whose URLs are
  strings and whose \<open>raw_data\<close> is a dict (or missing), and a store state in which the
  lookup finds nothing for it. The first call inserts one row and returns its id with
  \<open>"inserted"\<close>. The second call, with the same dict as the first call left it or with an
  equal copy of the original, returns the same id, with \<open>"skipped"\<close> when the candidate has
  neither a rank display nor a non-empty \<open>raw_data\<close> and with \<open>"enriched"\<close> otherwise, and in
  both cases it leaves the store exactly as the first call left it.
\<close>

theorem C1_reconcile_twice_amended:
  assumes wt: "well_typed data"
    and n: "str_strip (py_or (dict_get data ''name'') (PStr [])) = Inr name"
    and w: "str_strip (py_or (dict_get data ''website_url'')
                        (py_or (dict_get data ''website'') (PStr []))) = Inr website_url"
    and src: "str_strip (py_or (dict_get data ''source_url'') (PStr [])) = Inr source_url"
    and key: "name \<noteq> [] \<or> website_url \<noteq> []"
    and t: "normalize_qs_ranking (dict_get data ''qs_ranking'') = Inr (disp, rmin, rmax)"
    and nomatch: "fst (get_unreviewed_school_by_match store_client PNone
                        (py_or (PStr website_url) PNone) (py_or (PStr name) PNone) st) = PNone"
    and fresh: "fresh_counter st"
    and first: "enrich_or_insert_unreviewed_school store_client data True st = (r1, data1, st1)"
    and d2: "d2 = data \<or> d2 = data1"
    and second: "enrich_or_insert_unreviewed_school store_client d2 True st1 = (r2, data2, st2)"
  shows "r1 = (PStr (str_nat (next_id st)), ''inserted'')
       \<and> length (rows st1) = Suc (length (rows st))
       \<and> r2 = (PStr (str_nat (next_id st)),
               if disp = None \<and> \<not> truthy (dict_get data ''raw_data'')
               then ''skipped'' else ''enriched'')
       \<and> st2 = st1"
proof -
  let ?t = "(disp, rmin, rmax)"
  let ?k = "next_id st"
  from wt have "dict_or_none (dict_get data ''raw_data'')" by (simp add: well_typed_def)
  from candidate_raw[OF this] obtain d0 where
    d0: "py_or (dict_get_default data ''raw_data'' (PDict [])) (PDict []) = PDict d0"
        "py_or (dict_get data ''raw_data'') (PDict []) = PDict d0"
        "distinct (map fst d0)" "(d0 = []) = (\<not> truthy (dict_get data ''raw_data''))"
    by blast
  from set_rank_keys_dict[of d0 disp rmin rmax] obtain d1 where
    d1: "set_rank_keys (PDict d0) ?t = Inr (PDict d1)"
        "set_rank_keys (PDict d1) ?t = Inr (PDict d1)"
        "distinct (map fst d0) \<longrightarrow> distinct (map fst d1)"
        "(d1 = []) = (d0 = [] \<and> disp = None \<and> rmin = None \<and> rmax = None)"
    by blast
  let ?row = "inserted_row data ?t name website_url source_url (PDict d1) ?k"
  let ?st1 = "st\<lparr>rows := rows st @ [?row], next_id := Suc ?k\<rparr>"
  \<comment> \<open>the first call\<close>
  from nomatch have lk: "get_unreviewed_school_by_match store_client PNone
      (py_or (PStr website_url) PNone) (py_or (PStr name) PNone) st = (PNone, st)"
    by (simp add: lookup_entry_store)
  have ins: "insert_new store_client data ?t name website_url source_url st
             = (Inr (PStr (str_nat ?k), ''inserted''), write_back data (PDict d1), ?st1)"
    by (rule insert_new_store) (simp add: d0(1) d1(1))
  have b1: "enrich_body store_client data True st
            = (Inr (PStr (str_nat ?k), ''inserted''), write_back data (PDict d1), ?st1)"
    by (simp add: enrich_body_def n w src t lk ins)
  with first have r1: "r1 = (PStr (str_nat ?k), ''inserted'')"
    and data1: "data1 = write_back data (PDict d1)" and st1: "st1 = ?st1"
    by (simp_all add: enrich_or_insert_unreviewed_school_def)
  \<comment> \<open>the candidate of the second call\<close>
  have same: "dict_get d2 f = dict_get data f" if "f \<noteq> ''raw_data''" for f
    using d2 data1 that by (auto simp: write_back_def dict_get_dict_set)
  have raw2: "set_rank_keys (py_or (dict_get d2 ''raw_data'') (PDict [])) ?t = Inr (PDict d1)"
  proof (cases "d2 = data")
    case True
    then show ?thesis by (simp add: d0(2) d1(1))
  next
    case False
    with d2 data1 have e: "d2 = write_back data (PDict d1)" by simp
    show ?thesis
    proof (cases "truthy (dict_get data ''raw_data'')")
      case True
      with d0(4) d1(4) have "d1 \<noteq> []" by simp
      with True e show ?thesis by (simp add: write_back_def dict_get_dict_set py_or_def d1(2))
    next
      case False
      with e show ?thesis by (simp add: write_back_def d0(2) d1(1))
    qed
  qed
  \<comment> \<open>the second lookup finds the new row\<close>
  from nomatch have nf:
    "website_url \<noteq> [] \<longrightarrow> find (matches (WebsiteIlike website_url)) (rows st) = None"
    "website_url = [] \<longrightarrow> name \<noteq> [] \<longrightarrow> find (matches (NameIlike name)) (rows st) = None"
    by (auto simp: lookup_entry_store split: option.splits if_splits)
  have mw: "website_url \<noteq> [] \<Longrightarrow> matches (WebsiteIlike website_url) ?row"
    by (simp add: field_contains_def inserted_row_get payload0_get py_or_def contains_self)
  have mn: "matches (NameIlike name) ?row"
    by (simp add: field_contains_def inserted_row_get payload0_get contains_self)
  have lk2: "get_unreviewed_school_by_match store_client PNone
      (py_or (PStr website_url) PNone) (py_or (PStr name) PNone) ?st1 = (PDict ?row, ?st1)"
    using key nf mw mn
    by (cases "website_url = []")
       (simp_all add: lookup_entry_store find_append_last del: matches.simps)
  \<comment> \<open>the existing branch\<close>
  have sp: "staged_patch d2 True ?t (PDict ?row)
            = Inr (if truthy (PDict d1) then [(''raw_data'', PDict d1)] else [], PDict d1)"
    by (rule second_stage[OF wt w src same raw2])
  have vid: "val_index (PDict ?row) ''id'' = Inr (PStr (str_nat ?k))"
    by (simp add: val_index_def inserted_row_def map_of_dict_set)
  have ee: "enrich_existing store_client d2 True ?t (PDict ?row) ?st1
            = (Inr (PStr (str_nat ?k), if d1 = [] then ''skipped'' else ''enriched''),
               write_back d2 (PDict d1), ?st1)"
  proof (cases "d1 = []")
    case True
    show ?thesis unfolding enrich_existing_def sp vid by (simp add: True)
  next
    case False
    have "patch_unreviewed_school store_client (PStr (str_nat ?k)) [(''raw_data'', PDict d1)] ?st1
          = (True, ?st1)"
    proof (rule patch_raw_same)
      show "rows ?st1 = rows st @ [?row]" by simp
      show "map_of ?row ''raw_data'' = Some (PDict d1)"
        by (rule dict_get_Some) (simp add: inserted_row_get)
      show "dict_has ?row ''id''" by (rule inserted_row_has_id)
      show "dict_get ?row ''id'' = PStr (str_nat ?k)" by (simp add: inserted_row_get)
      show "str_nat ?k \<noteq> []" by (rule str_nat_nonempty)
      show "d1 \<noteq> []" by fact
      show "distinct (map fst d1)" using d0(3) d1(3) by simp
      show "\<not> matches (IdEq (str_nat ?k)) r" if "r \<in> set (rows st)" for r
        using fresh_counter_no_match[OF fresh that] .
    qed
    with False show ?thesis by (simp add: enrich_existing_def sp vid Let_def)
  qed
  have b2: "enrich_body store_client d2 True ?st1
            = (Inr (PStr (str_nat ?k), if d1 = [] then ''skipped'' else ''enriched''),
               write_back d2 (PDict d1), ?st1)"
    by (simp add: enrich_body_def same n w src t lk2 ee inserted_row_nonempty)
  have c: "(d1 = []) = (disp = None \<and> \<not> truthy (dict_get data ''raw_data''))"
    using d1(4) d0(4) normalize_display_none[of "dict_get data ''qs_ranking''" rmin rmax] t
    by auto
  from second st1 b2 have "r2 = (PStr (str_nat ?k), if d1 = [] then ''skipped'' else ''enriched'')"
    and "st2 = st1"
    by (simp_all add: enrich_or_insert_unreviewed_school_def)
  with r1 st1 c show ?thesis by simp
qed

theorem C1_reconcile_twice_witness:
  "enrich_or_insert_unreviewed_school store_client [(''name'', PStr ''A'')] True
     \<lparr>rows = [], next_id = 1\<rparr>
   = ((PStr ''1'', ''inserted''), [(''name'', PStr ''A'')],
      \<lparr>rows = [[(''name'', PStr ''A''), (''source_url'', PStr []),
                (''confidence_score'', PFloat ''0.0''), (''raw_data'', PDict []),
                (''status'', PStr ''pending''), (''id'', PStr ''1'')]], next_id = 2\<rparr>)
   \<and> enrich_or_insert_unreviewed_school store_client [(''name'', PStr ''A'')] True
       \<lparr>rows = [[(''name'', PStr ''A''), (''source_url'', PStr []),
                 (''confidence_score'', PFloat ''0.0''), (''raw_data'', PDict []),
                 (''status'', PStr ''pending''), (''id'', PStr ''1'')]], next_id = 2\<rparr>
     = ((PStr ''1'', ''skipped''), [(''name'', PStr ''A'')],
        \<lparr>rows = [[(''name'', PStr ''A''), (''source_url'', PStr []),
                  (''confidence_score'', PFloat ''0.0''), (''raw_data'', PDict []),
                  (''status'', PStr ''pending''), (''id'', PStr ''1'')]], next_id = 2\<rparr>)
   \<and> (PStr ''1'', ''skipped'') = (PStr (str_nat 1), ''skipped'')"
proof -
  let ?d = "[(''name'', PStr ''A'')]"
  let ?s0 = "\<lparr>rows = [], next_id = 1\<rparr>"
  let ?s1 = "\<lparr>rows = [[(''name'', PStr ''A''), (''source_url'', PStr []),
                (''confidence_score'', PFloat ''0.0''), (''raw_data'', PDict []),
                (''status'', PStr ''pending''), (''id'', PStr ''1'')]], next_id = 2\<rparr>"
  have wt: "well_typed ?d" by code_simp
  have n: "str_strip (py_or (dict_get ?d ''name'') (PStr [])) = Inr ''A''" by code_simp
  have w: "str_strip (py_or (dict_get ?d ''website_url'') (py_or (dict_get ?d ''website'') (PStr [])))
           = Inr []" by code_simp
  have src: "str_strip (py_or (dict_get ?d ''source_url'') (PStr [])) = Inr []" by code_simp
  have key: "''A'' \<noteq> [] \<or> ([] :: string) \<noteq> []" by simp
  have t: "normalize_qs_ranking (dict_get ?d ''qs_ranking'') = Inr (None, None, None)" by code_simp
  have nm: "fst (get_unreviewed_school_by_match store_client PNone (py_or (PStr []) PNone)
                   (py_or (PStr ''A'') PNone) ?s0) = PNone" by code_simp
  have fr: "fresh_counter ?s0" by code_simp
  have c1: "enrich_or_insert_unreviewed_school store_client ?d True ?s0
            = ((PStr ''1'', ''inserted''), ?d, ?s1)" by code_simp
  have c2: "enrich_or_insert_unreviewed_school store_client ?d True ?s1
            = ((PStr ''1'', ''skipped''), ?d, ?s1)" by code_simp
  have d: "?d = ?d \<or> ?d = ?d" by simp
  have nt: "\<not> truthy (dict_get ?d ''raw_data'')" by code_simp
  from C1_reconcile_twice_amended[OF wt n w src key t nm fr c1 d c2] nt c1 c2
  show ?thesis by simp
qed

end
